theory Spec2Isabelle
  imports Complex_Main "HOL-Library.Multiset" "HOL-Library.List_Lexorder"
begin

section \<open>Text\<close>

text \<open>
  A JavaScript string is a sequence of UTF-16 code units; a code unit is modelled as a
  natural number. \<open>js\<close> turns an ASCII literal into such a sequence, so that
  \<open>js ''5/3/2024''\<close> stands for the JavaScript literal \<^verbatim>\<open>"5/3/2024"\<close>.
\<close>

type_synonym jsstring = "nat list"

definition js :: "string \<Rightarrow> jsstring" where
  "js s = map of_char s"

text \<open>
  The set matched by \<^verbatim>\<open>\s\<close> and removed by \<^verbatim>\<open>String.prototype.trim\<close>: the ECMAScript
  WhiteSpace and LineTerminator code points (TAB, LF, VT, FF, CR, SP, NBSP, U+1680,
  U+2000..U+200A, U+2028, U+2029, U+202F, U+205F, U+3000, U+FEFF).
\<close>

definition isSpace :: "nat \<Rightarrow> bool" where
  "isSpace c \<longleftrightarrow>
     (9 \<le> c \<and> c \<le> 13) \<or> c = 32 \<or> c = 160 \<or> c = 5760 \<or> (8192 \<le> c \<and> c \<le> 8202) \<or>
     c = 8232 \<or> c = 8233 \<or> c = 8239 \<or> c = 8287 \<or> c = 12288 \<or> c = 65279"

text \<open>\<^verbatim>\<open>\d\<close> without the unicode flag: the ASCII digits.\<close>

definition isDigit :: "nat \<Rightarrow> bool" where
  "isDigit c \<longleftrightarrow> 48 \<le> c \<and> c \<le> 57"

text \<open>\<^verbatim>\<open>\w\<close>: ASCII letters, ASCII digits and the underscore.\<close>

definition isWord :: "nat \<Rightarrow> bool" where
  "isWord c \<longleftrightarrow> isDigit c \<or> (65 \<le> c \<and> c \<le> 90) \<or> (97 \<le> c \<and> c \<le> 122) \<or> c = 95"

definition trim :: "jsstring \<Rightarrow> jsstring" where
  "trim s = rev (dropWhile isSpace (rev (dropWhile isSpace s)))"

text \<open>
  \<^verbatim>\<open>const norm = (s) => String(s ?? "").trim();\<close>
  The argument is a string here; the one place where the source passes
  \<^verbatim>\<open>undefined\<close> (a cell beyond the end of a row) is written out in \<open>getCell\<close>.
\<close>

definition norm_text :: "jsstring \<Rightarrow> jsstring" where
  "norm_text s = trim s"

text \<open>\<^verbatim>\<open>s.padStart(n, "0")\<close>\<close>

definition padStart0 :: "nat \<Rightarrow> jsstring \<Rightarrow> jsstring" where
  "padStart0 n s = replicate (n - length s) 48 @ s"

section \<open>Date normalisation\<close>

text \<open>
  \<^verbatim>\<open>
  function toISO(ddmmyyyy) {
    const v = norm(ddmmyyyy);
    const m = v.match(/^(\d{1,2})\/(\d{1,2})\/(\d{4})$/);
    if (!m) return "";
    return `${m[3]}-${m[2].padStart(2, "0")}-${m[1].padStart(2, "0")}`;
  }
  \<close>
  The regular expression is matched the way a backtracking matcher does it: each
  \<^verbatim>\<open>\d{1,2}\<close> is greedy, so two digits are tried before one; \<^verbatim>\<open>^\<close> and \<^verbatim>\<open>$\<close> (no
  multiline flag) anchor the match to the whole text.
\<close>

definition takeDigits :: "nat \<Rightarrow> jsstring \<Rightarrow> (jsstring \<times> jsstring) option" where
  "takeDigits k s =
     (if k \<le> length s \<and> list_all isDigit (take k s) then Some (take k s, drop k s) else None)"

definition expect :: "nat \<Rightarrow> jsstring \<Rightarrow> jsstring option" where
  "expect c s = (case s of [] \<Rightarrow> None | x # r \<Rightarrow> if x = c then Some r else None)"

definition matchDateWith :: "nat \<Rightarrow> nat \<Rightarrow> jsstring \<Rightarrow> (jsstring \<times> jsstring \<times> jsstring) option" where
  "matchDateWith kd km s =
     (case takeDigits kd s of None \<Rightarrow> None | Some (d, r1) \<Rightarrow>
      case expect 47 r1 of None \<Rightarrow> None | Some r2 \<Rightarrow>
      case takeDigits km r2 of None \<Rightarrow> None | Some (m, r3) \<Rightarrow>
      case expect 47 r3 of None \<Rightarrow> None | Some r4 \<Rightarrow>
      case takeDigits 4 r4 of None \<Rightarrow> None | Some (y, r5) \<Rightarrow>
      if r5 = [] then Some (d, m, y) else None)"

fun firstMatch :: "(nat \<times> nat) list \<Rightarrow> jsstring \<Rightarrow> (jsstring \<times> jsstring \<times> jsstring) option" where
  "firstMatch [] s = None"
| "firstMatch ((kd, km) # ks) s =
     (case matchDateWith kd km s of Some g \<Rightarrow> Some g | None \<Rightarrow> firstMatch ks s)"

definition matchDate :: "jsstring \<Rightarrow> (jsstring \<times> jsstring \<times> jsstring) option" where
  "matchDate s = firstMatch [(2, 2), (2, 1), (1, 2), (1, 1)] s"

definition toISO :: "jsstring \<Rightarrow> jsstring" where
  "toISO ddmmyyyy =
     (let v = norm_text ddmmyyyy in
      case matchDate v of
        None \<Rightarrow> []
      | Some (d, m, y) \<Rightarrow> y @ js ''-'' @ padStart0 2 m @ js ''-'' @ padStart0 2 d)"

text \<open>The shape the regular expression describes, stated declaratively.\<close>

definition dmyShape :: "jsstring \<Rightarrow> jsstring \<Rightarrow> jsstring \<Rightarrow> bool" where
  "dmyShape d m y \<longleftrightarrow>
     list_all isDigit d \<and> (length d = 1 \<or> length d = 2) \<and>
     list_all isDigit m \<and> (length m = 1 \<or> length m = 2) \<and>
     list_all isDigit y \<and> length y = 4"

definition dmyText :: "jsstring \<Rightarrow> jsstring \<Rightarrow> jsstring \<Rightarrow> jsstring" where
  "dmyText d m y = d @ js ''/'' @ m @ js ''/'' @ y"

section \<open>Numeric parsing\<close>

text \<open>
  A JavaScript number that \<^verbatim>\<open>Number\<close> can return for a decimal text: \<open>Fin r\<close> stands for
  the IEEE double nearest to the rational \<open>r\<close> (so \<open>Fin 120\<close>, \<open>Fin 0\<close> and \<open>Fin (3/2)\<close>
  are the doubles 120, 0 and 1.5 themselves), the infinities and NaN.
\<close>

datatype jsnum = Fin rat | PosInf | NegInf | NaN

text \<open>
  Rounding to a double overflows to an infinity from \<open>2^1024 - 2^970\<close> on (the midpoint
  between the largest double and \<open>2^1024\<close>).
\<close>

definition toDouble :: "rat \<Rightarrow> jsnum" where
  "toDouble r =
     (if 2 ^ 1024 - 2 ^ 970 \<le> r then PosInf
      else if r \<le> - (2 ^ 1024 - 2 ^ 970) then NegInf
      else Fin r)"

definition digitsValue :: "jsstring \<Rightarrow> nat" where
  "digitsValue ds = foldl (\<lambda>acc c. 10 * acc + (c - 48)) 0 ds"

text \<open>
  \<^verbatim>\<open>Number(s)\<close> for a text over the digits, \<^verbatim>\<open>.\<close> \<^verbatim>\<open>,\<close> and \<^verbatim>\<open>-\<close>, the only characters
  \<open>safeNum\<close> lets through: the empty text is 0; a decimal literal is digits with an
  optional fraction (\<^verbatim>\<open>12\<close>, \<^verbatim>\<open>12.\<close>, \<^verbatim>\<open>12.5\<close>) or a fraction alone (\<^verbatim>\<open>.5\<close>), with an
  optional sign in front; every other text is NaN.
\<close>

definition unsignedDecimal :: "jsstring \<Rightarrow> rat option" where
  "unsignedDecimal s =
     (let ip = takeWhile isDigit s; r = dropWhile isDigit s in
      if r = [] then (if ip = [] then None else Some (of_nat (digitsValue ip)))
      else if hd r = 46 \<and> list_all isDigit (tl r) \<and> (ip \<noteq> [] \<or> tl r \<noteq> [])
        then Some (of_nat (digitsValue ip) + of_nat (digitsValue (tl r)) / 10 ^ length (tl r))
      else None)"

definition Number :: "jsstring \<Rightarrow> jsnum" where
  "Number s =
     (if s = [] then Fin 0
      else if hd s = 45 then (case unsignedDecimal (tl s) of None \<Rightarrow> NaN | Some r \<Rightarrow> toDouble (- r))
      else (case unsignedDecimal s of None \<Rightarrow> NaN | Some r \<Rightarrow> toDouble r))"

definition isFinite :: "jsnum \<Rightarrow> bool" where
  "isFinite n = (case n of Fin r \<Rightarrow> True | _ \<Rightarrow> False)"

text \<open>\<^verbatim>\<open>s.replace(",", ".")\<close>: a string pattern replaces the first occurrence only.\<close>

fun replaceFirstComma :: "jsstring \<Rightarrow> jsstring" where
  "replaceFirstComma [] = []"
| "replaceFirstComma (c # cs) = (if c = 44 then 46 # cs else c # replaceFirstComma cs)"

text \<open>The characters \<^verbatim>\<open>/[^\d,.\-]/g\<close> does not remove.\<close>

definition numericChar :: "nat \<Rightarrow> bool" where
  "numericChar c \<longleftrightarrow> isDigit c \<or> c = 44 \<or> c = 46 \<or> c = 45"

text \<open>
  \<^verbatim>\<open>
  function safeNum(v) {
    const s = norm(v).replace(/[^\d,.\-]/g, "").replace(",", ".");
    const n = Number(s);
    return Number.isFinite(n) ? n : 0;
  }
  \<close>
\<close>

definition safeNum :: "jsstring \<Rightarrow> jsnum" where
  "safeNum v =
     (let s = replaceFirstComma (filter numericChar (norm_text v));
          n = Number s
      in if isFinite n then n else Fin 0)"

section \<open>CSV tokenizer\<close>

text \<open>
  \<^verbatim>\<open>row.some((x) => String(x).trim() !== "")\<close>: a row with a field that is not blank.
\<close>

definition nonBlankRow :: "jsstring list \<Rightarrow> bool" where
  "nonBlankRow row = list_ex (\<lambda>x. trim x \<noteq> []) row"

text \<open>
  \<^verbatim>\<open>
  function parseCSV(text) {
    const out = []; let row = []; let cell = ""; let inQuotes = false;
    for (let i = 0; i < text.length; i++) {
      const c = text[i];
      const n = text[i + 1];
      if (c === '"') {
        if (inQuotes && n === '"') { cell += '"'; i++; }
        else { inQuotes = !inQuotes; }
      } else if (!inQuotes && (c === "," || c === "\n" || c === "\r")) {
        if (c === ",") { row.push(cell); cell = ""; }
        else {
          row.push(cell);
          if (row.some((x) => String(x).trim() !== "")) out.push(row);
          row = []; cell = "";
          if (c === "\r" && n === "\n") i++;
        }
      } else { cell += c; }
    }
    if (cell.length || row.length) {
      row.push(cell);
      if (row.some((x) => String(x).trim() !== "")) out.push(row);
    }
    return out;
  }
  \<close>
  The loop runs over the text that is left: \<open>c\<close> is its first code unit, \<open>n\<close> the one
  after it (absent at the end of the text, where the source reads \<^verbatim>\<open>undefined\<close>), and
  \<^verbatim>\<open>i++\<close> in the body skips one more code unit. Code units: 34 is the double quote,
  44 the comma, 10 LF, 13 CR.
\<close>

record csvState =
  out :: "jsstring list list"
  row :: "jsstring list"
  cell :: jsstring
  inQuotes :: bool

definition endRow :: "csvState \<Rightarrow> csvState" where
  "endRow st =
     (let r = row st @ [cell st] in
      st\<lparr>out := (if nonBlankRow r then out st @ [r] else out st), row := [], cell := []\<rparr>)"

fun parseLoop :: "csvState \<Rightarrow> jsstring \<Rightarrow> csvState" where
  "parseLoop st [] = st"
| "parseLoop st (c # rest) =
     (if c = 34 then
        (if inQuotes st \<and> rest \<noteq> [] \<and> hd rest = 34
         then parseLoop (st\<lparr>cell := cell st @ [34]\<rparr>) (tl rest)
         else parseLoop (st\<lparr>inQuotes := \<not> inQuotes st\<rparr>) rest)
      else if \<not> inQuotes st \<and> (c = 44 \<or> c = 10 \<or> c = 13) then
        (if c = 44 then parseLoop (st\<lparr>row := row st @ [cell st], cell := []\<rparr>) rest
         else parseLoop (endRow st) (if c = 13 \<and> rest \<noteq> [] \<and> hd rest = 10 then tl rest else rest))
      else parseLoop (st\<lparr>cell := cell st @ [c]\<rparr>) rest)"

definition parseCSV :: "jsstring \<Rightarrow> jsstring list list" where
  "parseCSV text =
     (let st = parseLoop \<lparr>out = [], row = [], cell = [], inQuotes = False\<rparr> text in
      if cell st \<noteq> [] \<or> row st \<noteq> [] then out (endRow st) else out st)"

text \<open>
  How a table is written down as CSV text: a field is either bare (its text as it is,
  free of quotes, commas and line breaks) or enclosed in double quotes with every quote
  of its content doubled; fields are joined by commas and every row ends with LF.
\<close>

datatype csvField = Bare jsstring | Quoted jsstring

fun content :: "csvField \<Rightarrow> jsstring" where
  "content (Bare s) = s"
| "content (Quoted s) = s"

definition bareChar :: "nat \<Rightarrow> bool" where
  "bareChar c \<longleftrightarrow> c \<noteq> 34 \<and> c \<noteq> 44 \<and> c \<noteq> 10 \<and> c \<noteq> 13"

fun wellFormedField :: "csvField \<Rightarrow> bool" where
  "wellFormedField (Bare s) = list_all bareChar s"
| "wellFormedField (Quoted s) = True"

definition doubleQuotes :: "jsstring \<Rightarrow> jsstring" where
  "doubleQuotes s = concat (map (\<lambda>c. if c = 34 then [34, 34] else [c]) s)"

fun writeField :: "csvField \<Rightarrow> jsstring" where
  "writeField (Bare s) = s"
| "writeField (Quoted s) = [34] @ doubleQuotes s @ [34]"

fun writeFields :: "csvField list \<Rightarrow> jsstring" where
  "writeFields [] = []"
| "writeFields [f] = writeField f"
| "writeFields (f # g # fs) = writeField f @ [44] @ writeFields (g # fs)"

definition writeTable :: "csvField list list \<Rightarrow> jsstring" where
  "writeTable t = concat (map (\<lambda>r. writeFields r @ [10]) t)"

section \<open>Header resolver\<close>

text \<open>
  \<^verbatim>\<open>toLowerCase\<close> and \<^verbatim>\<open>normalize("NFD")\<close> are given by the Unicode tables. They are
  written out here for the code units up to U+00FF (ASCII and the Latin-1 supplement);
  a code unit above that is kept as it is, apart from the combining marks
  U+0300..U+036F, which \<open>stripDiacritics\<close> removes wherever they stand.
\<close>

definition lowerUnit :: "nat \<Rightarrow> nat" where
  "lowerUnit c =
     (if (65 \<le> c \<and> c \<le> 90) \<or> (192 \<le> c \<and> c \<le> 222 \<and> c \<noteq> 215) then c + 32 else c)"

definition toLowerCase :: "jsstring \<Rightarrow> jsstring" where
  "toLowerCase s = map lowerUnit s"

text \<open>\<^verbatim>\<open>const low = (s) => norm(s).toLowerCase();\<close>\<close>

definition low :: "jsstring \<Rightarrow> jsstring" where
  "low s = toLowerCase (norm_text s)"

text \<open>
  The base letter of a Latin-1 letter that has a canonical decomposition (U+00C6, U+00D0,
  U+00D7, U+00D8, U+00DE, U+00DF and their lower-case forms have none).
\<close>

definition baseUnit :: "nat \<Rightarrow> nat" where
  "baseUnit c =
     (if 192 \<le> c \<and> c \<le> 197 then 65 else if c = 199 then 67
      else if 200 \<le> c \<and> c \<le> 203 then 69 else if 204 \<le> c \<and> c \<le> 207 then 73
      else if c = 209 then 78 else if 210 \<le> c \<and> c \<le> 214 then 79
      else if 217 \<le> c \<and> c \<le> 220 then 85 else if c = 221 then 89
      else if 224 \<le> c \<and> c \<le> 229 then 97 else if c = 231 then 99
      else if 232 \<le> c \<and> c \<le> 235 then 101 else if 236 \<le> c \<and> c \<le> 239 then 105
      else if c = 241 then 110 else if 242 \<le> c \<and> c \<le> 246 then 111
      else if 249 \<le> c \<and> c \<le> 252 then 117 else if c = 253 \<or> c = 255 then 121
      else c)"

text \<open>
  \<^verbatim>\<open>
  function stripDiacritics(s) {
    return String(s ?? "").normalize("NFD").replace(/[\u0300-\u036f]/g, "");
  }
  \<close>
\<close>

definition stripDiacritics :: "jsstring \<Rightarrow> jsstring" where
  "stripDiacritics s = map baseUnit (filter (\<lambda>c. \<not> (768 \<le> c \<and> c \<le> 879)) s)"

text \<open>\<^verbatim>\<open>s.replace(/[...]+/g, " ")\<close>: every maximal run of matching code units becomes one space.\<close>

function collapseRuns :: "(nat \<Rightarrow> bool) \<Rightarrow> jsstring \<Rightarrow> jsstring" where
  "collapseRuns p [] = []"
| "collapseRuns p (c # cs) =
     (if p c then 32 # collapseRuns p (dropWhile p cs) else c # collapseRuns p cs)"
  by pat_completeness auto
termination
  by (relation "measure (\<lambda>(p, s). length s)") (auto simp: length_dropWhile_le less_Suc_eq_le)

text \<open>
  \<^verbatim>\<open>
  function keyifyHeader(s) {
    return stripDiacritics(low(s))
      .replace(/[_\-]+/g, " ")
      .replace(/[^\w\s.]/g, " ")
      .replace(/\s+/g, " ")
      .trim();
  }
  \<close>
\<close>

definition keyifyHeader :: "jsstring \<Rightarrow> jsstring" where
  "keyifyHeader s =
     trim (collapseRuns isSpace
       (map (\<lambda>c. if isWord c \<or> isSpace c \<or> c = 46 then c else 32)
         (collapseRuns (\<lambda>c. c = 95 \<or> c = 45)
           (stripDiacritics (low s)))))"

datatype canonical =
  Inc | Days | Date | Activity | From | To | Place | Km | Lodging | Status | Cost | Notes
  | Address | Link

text \<open>
  The table \<^verbatim>\<open>HEADER_ALIASES\<close>, as the source file has it. Two of its literals hold the code
  units U+221A and U+2020 after \<^verbatim>\<open>attivit\<close> and \<^verbatim>\<open>citt\<close>.
\<close>

fun HEADER_ALIASES :: "canonical \<Rightarrow> jsstring list" where
  "HEADER_ALIASES Inc = [js ''inc'', js ''index'', js ''#'', js ''id'']"
| "HEADER_ALIASES Days = [js ''n days'', js ''n. days'', js ''days'', js ''giorni'', js ''durata'']"
| "HEADER_ALIASES Date = [js ''data'', js ''date'', js ''giorno'']"
| "HEADER_ALIASES Activity =
     [js ''attivit'' @ [8730, 8224], js ''attivita'', js ''activity'', js ''tipo'', js ''type'']"
| "HEADER_ALIASES From =
     [js ''partenza'', js ''da'', js ''from'', js ''start'', js ''origine'', js ''departure'']"
| "HEADER_ALIASES To =
     [js ''arrivo'', js ''a'', js ''to'', js ''end'', js ''destinazione'', js ''arrival'']"
| "HEADER_ALIASES Place =
     [js ''luogo'', js ''citta'', js ''citt'' @ [8730, 8224], js ''city'', js ''location'',
      js ''tappa'', js ''stop'']"
| "HEADER_ALIASES Km = [js ''km'', js ''kms'', js ''distanza'', js ''distance'']"
| "HEADER_ALIASES Lodging =
     [js ''pernottamento'', js ''hotel'', js ''alloggio'', js ''accommodation'', js ''lodging'']"
| "HEADER_ALIASES Status = [js ''stato'', js ''status'', js ''prenotazione'', js ''booking status'']"
| "HEADER_ALIASES Cost = [js ''costo'', js ''cost'', js ''prezzo'', js ''price'', js ''budget'']"
| "HEADER_ALIASES Notes = [js ''note'', js ''notes'', js ''commenti'', js ''comment'', js ''memo'']"
| "HEADER_ALIASES Address =
     [js ''indirizzo'', js ''address'', js ''location address'', js ''place address'']"
| "HEADER_ALIASES Link = [js ''link'', js ''url'', js ''booking link'', js ''website'']"

text \<open>\<^verbatim>\<open>Object.keys(HEADER_ALIASES)\<close>: the keys in the order they are declared.\<close>

definition canonicalKeys :: "canonical list" where
  "canonicalKeys =
     [Inc, Days, Date, Activity, From, To, Place, Km, Lodging, Status, Cost, Notes, Address, Link]"

text \<open>\<^verbatim>\<open>Array.prototype.findIndex\<close>: the first index whose element passes, or -1.\<close>

fun findIndex :: "('a \<Rightarrow> bool) \<Rightarrow> 'a list \<Rightarrow> int" where
  "findIndex p [] = - 1"
| "findIndex p (x # xs) =
     (if p x then 0 else (let i = findIndex p xs in if i < 0 then - 1 else i + 1))"

definition normalizedAliases :: "canonical \<Rightarrow> jsstring list" where
  "normalizedAliases canonical = map keyifyHeader (HEADER_ALIASES canonical)"

text \<open>
  \<^verbatim>\<open>
  function buildHeaderIndex(headerRow) {
    const headerKeys = headerRow.map((h) => keyifyHeader(h));
    const idx = {};
    for (const canonical of Object.keys(HEADER_ALIASES)) {
      const aliases = HEADER_ALIASES[canonical].map((a) => keyifyHeader(a));
      idx[canonical] = headerKeys.findIndex((headerKey) => aliases.includes(headerKey));
    }
    return idx;
  }
  \<close>
\<close>

type_synonym headerIndex = "canonical \<rightharpoonup> int"

definition buildHeaderIndex :: "jsstring list \<Rightarrow> headerIndex" where
  "buildHeaderIndex headerRow =
     (let headerKeys = map keyifyHeader headerRow in
      foldl (\<lambda>idx canonical.
               let aliases = normalizedAliases canonical in
               idx(canonical \<mapsto> findIndex (\<lambda>headerKey. headerKey \<in> set aliases) headerKeys))
            Map.empty canonicalKeys)"

text \<open>
  \<^verbatim>\<open>
  function getCell(row, idx, canonical) {
    const i = idx[canonical];
    if (i === undefined || i < 0) return "";
    return norm(row[i]);
  }
  \<close>
  A column beyond the end of the row reads \<^verbatim>\<open>undefined\<close>, which \<^verbatim>\<open>norm\<close> turns into
  the empty text.
\<close>

definition getCell :: "jsstring list \<Rightarrow> headerIndex \<Rightarrow> canonical \<Rightarrow> jsstring" where
  "getCell r idx canonical =
     (case idx canonical of
        None \<Rightarrow> []
      | Some i \<Rightarrow> if i < 0 then [] else if nat i < length r then norm_text (r ! nat i) else [])"

section \<open>Row normaliser and load\<close>

text \<open>
  The object \<^verbatim>\<open>load\<close> builds for a row: the fourteen cells and the five derived fields
  (\<^verbatim>\<open>_dateISO\<close>, \<^verbatim>\<open>_km\<close>, \<^verbatim>\<open>_cost\<close>, \<^verbatim>\<open>_city\<close>, \<^verbatim>\<open>_addr\<close>).
\<close>

record tripRecord =
  f_inc :: jsstring
  f_days :: jsstring
  f_date :: jsstring
  f_activity :: jsstring
  f_from :: jsstring
  f_to :: jsstring
  f_place :: jsstring
  f_km :: jsstring
  f_lodging :: jsstring
  f_status :: jsstring
  f_cost :: jsstring
  f_notes :: jsstring
  f_address :: jsstring
  f_link :: jsstring
  f_dateISO :: jsstring
  f_kmNum :: jsnum
  f_costNum :: jsnum
  f_city :: jsstring
  f_addr :: jsstring

text \<open>\<^verbatim>\<open>a || b\<close> on strings: \<open>a\<close> unless it is empty.\<close>

definition orElse :: "jsstring \<Rightarrow> jsstring \<Rightarrow> jsstring" where
  "orElse a b = (if a \<noteq> [] then a else b)"

definition makeRecord :: "headerIndex \<Rightarrow> jsstring list \<Rightarrow> tripRecord" where
  "makeRecord idx r =
     (let inc = getCell r idx Inc; days = getCell r idx Days; date = getCell r idx Date;
          activity = getCell r idx Activity; from = getCell r idx From; to = getCell r idx To;
          place = getCell r idx Place; km = getCell r idx Km; lodging = getCell r idx Lodging;
          status = getCell r idx Status; cost = getCell r idx Cost; notes = getCell r idx Notes;
          address = getCell r idx Address; link = getCell r idx Link
      in \<lparr>f_inc = inc, f_days = days, f_date = date, f_activity = activity, f_from = from,
          f_to = to, f_place = place, f_km = km, f_lodging = lodging, f_status = status,
          f_cost = cost, f_notes = notes, f_address = address, f_link = link,
          f_dateISO = toISO date,
          f_kmNum = safeNum km,
          f_costNum = safeNum cost,
          f_city = orElse place (orElse to (orElse from [])),
          f_addr = orElse address (orElse place (orElse to (orElse from [])))\<rparr>)"

text \<open>
  \<^verbatim>\<open>a.localeCompare(b)\<close>, as a sign. The source applies it to ISO date texts only (ten
  code units, ASCII digits with hyphens at the same two places), on which the collation
  order is the order of the code units.
\<close>

fun localeCompare :: "jsstring \<Rightarrow> jsstring \<Rightarrow> int" where
  "localeCompare [] [] = 0"
| "localeCompare [] (y # ys) = - 1"
| "localeCompare (x # xs) [] = 1"
| "localeCompare (x # xs) (y # ys) =
     (if x < y then - 1 else if y < x then 1 else localeCompare xs ys)"

text \<open>
  The comparator of \<^verbatim>\<open>rows.sort\<close>:
  \<^verbatim>\<open>(a, b) => a._dateISO.localeCompare(b._dateISO) || (norm(a.activity) === "Trip" ? -1 : 1)\<close>
\<close>

definition compareRows :: "tripRecord \<Rightarrow> tripRecord \<Rightarrow> int" where
  "compareRows a b =
     (let c = localeCompare (f_dateISO a) (f_dateISO b) in
      if c \<noteq> 0 then c else if norm_text (f_activity a) = js ''Trip'' then - 1 else 1)"

text \<open>
  \<^verbatim>\<open>Array.prototype.sort(comparefn)\<close>, as an insertion sort: each element in turn moves
  left past the elements \<open>tmp\<close> before it for which \<^verbatim>\<open>comparefn(tmp, element) > 0\<close>. The
  sorted prefix is kept in reverse, so that the scan starts at its head.

  The comparator above is not a consistent comparison function in the sense of
  ECMAScript (for two rows of the same date that are both trips it answers -1 whichever
  comes first, and 1 when neither is a trip), so the order among such rows is left to
  the engine. What is proved about the order of the working set uses only that every
  answer of the comparator agrees with the order by date and kind; it is proved for this
  insertion sort and for the merge sort below.
\<close>

fun insertElement :: "('a \<Rightarrow> 'a \<Rightarrow> int) \<Rightarrow> 'a \<Rightarrow> 'a list \<Rightarrow> 'a list" where
  "insertElement comparefn element [] = [element]"
| "insertElement comparefn element (tmp # earlier) =
     (if comparefn tmp element > 0 then tmp # insertElement comparefn element earlier
      else element # tmp # earlier)"

definition sortArray :: "('a \<Rightarrow> 'a \<Rightarrow> int) \<Rightarrow> 'a list \<Rightarrow> 'a list" where
  "sortArray comparefn a = rev (foldl (\<lambda>sorted element. insertElement comparefn element sorted) [] a)"

text \<open>
  The same builtin as a merge sort: the halves are sorted and merged, the left element
  first unless the comparator answers a positive number.
\<close>

fun mergeArrays :: "('a \<Rightarrow> 'a \<Rightarrow> int) \<Rightarrow> 'a list \<Rightarrow> 'a list \<Rightarrow> 'a list" where
  "mergeArrays comparefn [] right = right"
| "mergeArrays comparefn (l # left) [] = l # left"
| "mergeArrays comparefn (l # left) (r # right) =
     (if comparefn l r \<le> 0 then l # mergeArrays comparefn left (r # right)
      else r # mergeArrays comparefn (l # left) right)"

function mergeSortArray :: "('a \<Rightarrow> 'a \<Rightarrow> int) \<Rightarrow> 'a list \<Rightarrow> 'a list" where
  "mergeSortArray comparefn a =
     (if length a \<le> 1 then a
      else mergeArrays comparefn
             (mergeSortArray comparefn (take (length a div 2) a))
             (mergeSortArray comparefn (drop (length a div 2) a)))"
  by pat_completeness auto
termination
  by (relation "measure (\<lambda>(comparefn, a). length a)") auto

declare mergeSortArray.simps [simp del]

text \<open>\<^verbatim>\<open>String(n)\<close> for a length.\<close>

fun showNat :: "nat \<Rightarrow> jsstring" where
  "showNat n = (if n < 10 then [48 + n] else showNat (n div 10) @ [48 + n mod 10])"

text \<open>
  What the two awaited calls of \<^verbatim>\<open>load\<close> can give: \<^verbatim>\<open>fetch\<close> rejects, or resolves to a
  response with its \<^verbatim>\<open>ok\<close> flag, whose \<^verbatim>\<open>text()\<close> rejects (no body) or resolves to the
  body.
\<close>

datatype csvFetch = FetchRejected | Response bool "jsstring option"

text \<open>
  The errors \<^verbatim>\<open>load\<close> ends with: the rejection of \<^verbatim>\<open>fetch\<close> or \<^verbatim>\<open>text()\<close> passed on, and
  its own three (\<^verbatim>\<open>Impossibile caricare il CSV pubblicato.\<close>, \<^verbatim>\<open>CSV vuoto o non leggibile.\<close>,
  \<^verbatim>\<open>Non trovo la colonna Data/Date\<close>).
\<close>

datatype loadError = TransportError | CsvNotLoaded | CsvEmpty | NoDateColumn

datatype loadOutcome = Loaded | Failed loadError

text \<open>
  The module state \<^verbatim>\<open>load\<close> writes: the global \<^verbatim>\<open>rows\<close> and the text of the
  \<^verbatim>\<open>sourceMeta\<close> element.
\<close>

record app =
  rows :: "tripRecord list"
  sourceMeta :: jsstring

text \<open>\<^verbatim>\<open>idx.date < 0\<close>; a missing key reads \<^verbatim>\<open>undefined\<close>, and \<^verbatim>\<open>undefined < 0\<close> is false.\<close>

definition dateColumnMissing :: "headerIndex \<Rightarrow> bool" where
  "dateColumnMissing idx = (case idx Date of None \<Rightarrow> False | Some i \<Rightarrow> i < 0)"

text \<open>
  \<^verbatim>\<open>
  async function load() {
    document.getElementById("sourceMeta").textContent = "Carico dati...";
    const url = `${CSV_URL}&t=${Date.now()}`;
    const res = await fetch(url, { cache: "no-store" });
    if (!res.ok) throw new Error("Impossibile caricare il CSV pubblicato.");
    const text = await res.text();
    const matrix = parseCSV(text);
    if (!matrix.length) throw new Error("CSV vuoto o non leggibile.");
    const header = matrix[0];
    const idx = buildHeaderIndex(header);
    if (idx.date < 0) throw new Error("Non trovo la colonna Data/Date ...");
    rows = matrix.slice(1).map((r) => { ... return obj; }).filter((r) => r._dateISO);
    rows.sort(...);
    rebuildFilters();
    renderAll();
    document.getElementById("sourceMeta").textContent =
      `Fonte: Google Sheets (righe: ${rows.length})`;
  }
  \<close>
  The function takes what the network gives and the state, and returns how it ended
  with the state it left. \<^verbatim>\<open>rebuildFilters\<close> and \<^verbatim>\<open>renderAll\<close> read \<^verbatim>\<open>rows\<close> and write the
  page only; they are left out. (The last three code units of the first status text
  are U+201A, U+00C4, U+00B6 in the source file.)
\<close>

definition load :: "csvFetch \<Rightarrow> app \<Rightarrow> loadOutcome \<times> app" where
  "load res st =
     (let st1 = st\<lparr>sourceMeta := js ''Carico dati'' @ [8218, 196, 182]\<rparr> in
      case res of
        FetchRejected \<Rightarrow> (Failed TransportError, st1)
      | Response ok body \<Rightarrow>
          if \<not> ok then (Failed CsvNotLoaded, st1)
          else (case body of
            None \<Rightarrow> (Failed TransportError, st1)
          | Some text \<Rightarrow>
              let matrix = parseCSV text in
              if matrix = [] then (Failed CsvEmpty, st1)
              else
                let header = hd matrix;
                    idx = buildHeaderIndex header
                in if dateColumnMissing idx then (Failed NoDateColumn, st1)
                   else
                     let rows1 = filter (\<lambda>r. f_dateISO r \<noteq> []) (map (makeRecord idx) (tl matrix));
                         rows2 = sortArray compareRows rows1
                     in (Loaded,
                         \<lparr>rows = rows2,
                          sourceMeta = js ''Fonte: Google Sheets (righe: '' @ showNat (length rows2)
                            @ js '')''\<rparr>)))"

section \<open>Geocode cache and rate limiter\<close>

text \<open>
  The object stored per query: \<^verbatim>\<open>{ lat, lng, display }\<close>.
\<close>

record hit =
  h_lat :: jsnum
  h_lng :: jsnum
  h_display :: jsstring

text \<open>
  A candidate of the service's answer, read the way the source reads it:
  \<^verbatim>\<open>Number(data[0].lat)\<close>, \<^verbatim>\<open>Number(data[0].lon)\<close> and \<^verbatim>\<open>data[0].display_name\<close>.
\<close>

record candidate =
  c_lat :: jsnum
  c_lon :: jsnum
  c_display_name :: jsstring

text \<open>
  The item \<^verbatim>\<open>geocode_cache_v2\<close> of \<^verbatim>\<open>localStorage\<close>: absent, a text that
  \<^verbatim>\<open>JSON.parse\<close> rejects, or the serialised cache object.
\<close>

datatype storedItem = NoItem | Garbage | Cache "jsstring \<rightharpoonup> hit"

text \<open>
  What happens during calls of the resolver, in order, each with the time it happens
  at. The log is not part of the program: it records the order of its effects.
\<close>

datatype event =
    RequestIssued int jsstring
  | ResponseArrived int
  | RequestFailed int
  | TimestampSet int

text \<open>
  The state the resolver works on: the clock \<^verbatim>\<open>Date.now()\<close> reads (milliseconds), the
  global \<^verbatim>\<open>lastGeocodeAt\<close>, the stored item, and the log.
\<close>

record world =
  clock :: int
  lastGeocodeAt :: int
  storage :: storedItem
  events :: "event list"

text \<open>
  How an awaited \<^verbatim>\<open>fetch\<close> of the service settles: it rejects, or resolves to a response
  with its \<^verbatim>\<open>ok\<close> flag and a body, on which \<^verbatim>\<open>res.json()\<close> rejects or gives the
  candidates (a value that is no array, or has no length, counts as no candidates).
\<close>

datatype geoBody = BadJson | Json "candidate list"

datatype geoFetch = GeoRejected | GeoResponse bool geoBody

text \<open>
  What the outside does during one call: how much later than asked the timer of
  \<^verbatim>\<open>sleep\<close> fires, how long \<^verbatim>\<open>fetch\<close> takes to settle and how, and whether
  \<^verbatim>\<open>localStorage.setItem\<close> succeeds. Time passes at the awaited points only.
\<close>

record geoEnv =
  timerLate :: nat
  fetchTime :: nat
  fetched :: geoFetch
  storageWritable :: bool

text \<open>
  \<^verbatim>\<open>
  function loadGeocodeCache() {
    try { return JSON.parse(localStorage.getItem(geocodeCacheKey) || "{}"); }
    catch { return {}; }
  }
  function saveGeocodeCache(cache) {
    try { localStorage.setItem(geocodeCacheKey, JSON.stringify(cache)); }
    catch { // ignore localStorage errors }
  }
  \<close>
\<close>

definition loadGeocodeCache :: "world \<Rightarrow> (jsstring \<rightharpoonup> hit)" where
  "loadGeocodeCache w = (case storage w of Cache m \<Rightarrow> m | _ \<Rightarrow> Map.empty)"

definition saveGeocodeCache :: "geoEnv \<Rightarrow> (jsstring \<rightharpoonup> hit) \<Rightarrow> world \<Rightarrow> world" where
  "saveGeocodeCache env cache w = (if storageWritable env then w\<lparr>storage := Cache cache\<rparr> else w)"

text \<open>
  \<^verbatim>\<open>cache[q]\<close> on the parsed object: an entry of its own, or, for the names every object
  inherits from \<^verbatim>\<open>Object.prototype\<close>, the inherited (truthy) value.
\<close>

definition inheritedKeys :: "jsstring list" where
  "inheritedKeys =
     [js ''constructor'', js ''hasOwnProperty'', js ''isPrototypeOf'', js ''propertyIsEnumerable'',
      js ''toLocaleString'', js ''toString'', js ''valueOf'', js ''__proto__'',
      js ''__defineGetter__'', js ''__defineSetter__'', js ''__lookupGetter__'',
      js ''__lookupSetter__'']"

datatype cached = Missing | Own hit | Inherited

definition cacheGet :: "(jsstring \<rightharpoonup> hit) \<Rightarrow> jsstring \<Rightarrow> cached" where
  "cacheGet cache q =
     (case cache q of
        Some h \<Rightarrow> Own h
      | None \<Rightarrow> if q \<in> set inheritedKeys then Inherited else Missing)"

text \<open>
  \<^verbatim>\<open>encodeURIComponent\<close> throws a \<^verbatim>\<open>URIError\<close> on a surrogate code unit that has no
  partner.
\<close>

fun loneSurrogate :: "jsstring \<Rightarrow> bool" where
  "loneSurrogate [] = False"
| "loneSurrogate [c] = (55296 \<le> c \<and> c \<le> 57343)"
| "loneSurrogate (c # d # cs) =
     (if 55296 \<le> c \<and> c \<le> 56319 then (if 56320 \<le> d \<and> d \<le> 57343 then loneSurrogate cs else True)
      else if 56320 \<le> c \<and> c \<le> 57343 then True
      else loneSurrogate (d # cs))"

datatype geoValue = Null | Coordinates hit | InheritedProperty

datatype geoResult = Returned geoValue | Threw

text \<open>
  \<^verbatim>\<open>
  let lastGeocodeAt = 0;
  async function geocodeNominatim(query) {
    const q = norm(query);
    if (!q) return null;
    const cache = loadGeocodeCache();
    if (cache[q]) return cache[q];
    const now = Date.now();
    const wait = Math.max(0, 1100 - (now - lastGeocodeAt));
    if (wait) await sleep(wait);
    const url = `${GEOCODE_ENDPOINT}?format=json&q=${encodeURIComponent(q)}&limit=1`;
    const res = await fetch(url, { headers: { Accept: "application/json" } });
    lastGeocodeAt = Date.now();
    if (!res.ok) return null;
    const data = await res.json();
    if (!data || !data.length) return null;
    const hit = { lat: Number(data[0].lat), lng: Number(data[0].lon),
                  display: data[0].display_name };
    if (Number.isFinite(hit.lat) && Number.isFinite(hit.lng)) {
      cache[q] = hit;
      saveGeocodeCache(cache);
      return hit;
    }
    return null;
  }
  \<close>
\<close>

definition geocodeNominatim :: "geoEnv \<Rightarrow> jsstring \<Rightarrow> world \<Rightarrow> geoResult \<times> world" where
  "geocodeNominatim env query w =
     (let q = norm_text query in
      if q = [] then (Returned Null, w)
      else
        let cache = loadGeocodeCache w in
        case cacheGet cache q of
          Own h \<Rightarrow> (Returned (Coordinates h), w)
        | Inherited \<Rightarrow> (Returned InheritedProperty, w)
        | Missing \<Rightarrow>
            let now = clock w;
                wait = max 0 (1100 - (now - lastGeocodeAt w));
                w1 = (if wait \<noteq> 0 then w\<lparr>clock := clock w + wait + int (timerLate env)\<rparr> else w)
            in if loneSurrogate q then (Threw, w1)
               else
                 let w2 = w1\<lparr>events := events w1 @ [RequestIssued (clock w1) q]\<rparr>;
                     w3 = w2\<lparr>clock := clock w2 + int (fetchTime env)\<rparr>
                 in case fetched env of
                      GeoRejected \<Rightarrow> (Threw, w3\<lparr>events := events w3 @ [RequestFailed (clock w3)]\<rparr>)
                    | GeoResponse ok body \<Rightarrow>
                        let w4 = w3\<lparr>events := events w3 @ [ResponseArrived (clock w3)]\<rparr>;
                            w5 = w4\<lparr>lastGeocodeAt := clock w4,
                                    events := events w4 @ [TimestampSet (clock w4)]\<rparr>
                        in if \<not> ok then (Returned Null, w5)
                           else (case body of
                             BadJson \<Rightarrow> (Threw, w5)
                           | Json data \<Rightarrow>
                               if data = [] then (Returned Null, w5)
                               else
                                 let hit = \<lparr>h_lat = c_lat (hd data), h_lng = c_lon (hd data),
                                            h_display = c_display_name (hd data)\<rparr>
                                 in if isFinite (h_lat hit) \<and> isFinite (h_lng hit)
                                    then (Returned (Coordinates hit),
                                          saveGeocodeCache env (cache(q \<mapsto> hit)) w5)
                                    else (Returned Null, w5)))"

text \<open>The outbound requests of a log, each with the time it was issued at.\<close>

fun outbound :: "event list \<Rightarrow> (int \<times> jsstring) list" where
  "outbound [] = []"
| "outbound (RequestIssued t q # es) = (t, q) # outbound es"
| "outbound (e # es) = outbound es"

text \<open>Time passing between two calls.\<close>

definition later :: "nat \<Rightarrow> world \<Rightarrow> world" where
  "later gap w = w\<lparr>clock := clock w + int gap\<rparr>"

section \<open>Notions used in the statements\<close>

text \<open>The ISO text \<open>toISO\<close> builds from the three groups of a match.\<close>

definition isoText :: "jsstring \<Rightarrow> jsstring \<Rightarrow> jsstring \<Rightarrow> jsstring" where
  "isoText d m y = y @ js ''-'' @ padStart0 2 m @ js ''-'' @ padStart0 2 d"

text \<open>The state before the first load, and two small published sheets.\<close>

definition freshApp :: app where
  "freshApp = \<lparr>rows = [], sourceMeta = []\<rparr>"

definition sheetDates :: jsstring where
  "sheetDates = js ''Data,Tipo\<newline>5/3/2024,Trip\<newline>2024-03-05,Notte\<newline>''"

definition sheetOutOfRange :: jsstring where
  "sheetOutOfRange = js ''Data,Tipo\<newline>99/99/2024,Notte\<newline>''"

text \<open>
  What it means for \<open>i\<close> to be the answer of the resolver for the field \<open>c\<close>: -1 when
  no column of the header matches, and otherwise the position of the leftmost column
  whose normalised text is one of the normalised aliases of \<open>c\<close>.
\<close>

definition leftmostMatch :: "canonical \<Rightarrow> jsstring list \<Rightarrow> int \<Rightarrow> bool" where
  "leftmostMatch c headerRow i \<longleftrightarrow>
     (i = - 1 \<and> (\<forall>k < length headerRow. keyifyHeader (headerRow ! k) \<notin> set (normalizedAliases c))) \<or>
     (0 \<le> i \<and> nat i < length headerRow \<and>
      keyifyHeader (headerRow ! nat i) \<in> set (normalizedAliases c) \<and>
      (\<forall>k < nat i. keyifyHeader (headerRow ! k) \<notin> set (normalizedAliases c)))"

definition headerExample :: "jsstring list" where
  "headerExample = [js ''Tipo'', js ''DATA'', js ''date'', js ''Km'']"

text \<open>The state after the first statement of \<^verbatim>\<open>load\<close>: only the status text differs.\<close>

definition loading :: "app \<Rightarrow> app" where
  "loading st = st\<lparr>sourceMeta := js ''Carico dati'' @ [8218, 196, 182]\<rparr>"

text \<open>A sheet with no column for the date.\<close>

definition sheetNoDate :: jsstring where
  "sheetNoDate = js ''Giorno X,Tipo\<newline>5/3/2024,Trip\<newline>''"

text \<open>
  The order the comparator of \<open>load\<close> aims at: by ISO date (as code units), and on one
  date the trips before the rest.
\<close>

definition isTrip :: "tripRecord \<Rightarrow> bool" where
  "isTrip r \<longleftrightarrow> norm_text (f_activity r) = js ''Trip''"

definition keyLe :: "tripRecord \<Rightarrow> tripRecord \<Rightarrow> bool" where
  "keyLe a b \<longleftrightarrow>
     f_dateISO a < f_dateISO b \<or> (f_dateISO a = f_dateISO b \<and> (isTrip a \<or> \<not> isTrip b))"

text \<open>
  The order of the working set: ascending ISO dates, and of two records of one date a
  trip before a record of another kind.
\<close>

definition ordered :: "tripRecord list \<Rightarrow> bool" where
  "ordered rs \<longleftrightarrow>
     (\<forall>i j. i < j \<and> j < length rs \<longrightarrow> f_dateISO (rs ! i) \<le> f_dateISO (rs ! j)) \<and>
     (\<forall>i j. i < length rs \<and> j < length rs \<and> f_dateISO (rs ! i) = f_dateISO (rs ! j) \<and>
        f_activity (rs ! i) = js ''Trip'' \<and> f_activity (rs ! j) \<noteq> js ''Trip'' \<longrightarrow> i < j)"

text \<open>A sheet with trips and nights on one date, and an earlier night.\<close>

definition sheetTrips :: jsstring where
  "sheetTrips =
     js ''Tipo,Data\<newline>Notte,5/3/2024\<newline>Trip,5/3/2024\<newline>Notte,1/3/2024\<newline>Trip,5/3/2024\<newline>''"

text \<open>
  A comparator is keyed by a transitive relation \<open>le\<close> when each of its answers agrees
  with \<open>le\<close>: a positive answer for \<open>(a, b)\<close> only if \<open>le b a\<close>, any other answer
  only if \<open>le a b\<close>. It need not be consistent on pairs that \<open>le\<close> relates both ways.
\<close>

definition keyed :: "('a \<Rightarrow> 'a \<Rightarrow> bool) \<Rightarrow> ('a \<Rightarrow> 'a \<Rightarrow> int) \<Rightarrow> bool" where
  "keyed le cmp \<longleftrightarrow>
     (\<forall>a b c. le a b \<longrightarrow> le b c \<longrightarrow> le a c) \<and>
     (\<forall>a b. cmp a b > 0 \<longrightarrow> le b a) \<and>
     (\<forall>a b. \<not> cmp a b > 0 \<longrightarrow> le a b)"

text \<open>The state of the tokenizer between two rows, with the rows it has put out.\<close>

definition idle :: "jsstring list list \<Rightarrow> csvState" where
  "idle rs = \<lparr>out = rs, row = [], cell = [], inQuotes = False\<rparr>"

text \<open>A field with a comma, a line break and a quote in it, and a text that quotes it.\<close>

definition quotedContent :: jsstring where
  "quotedContent = js ''a,b'' @ [10] @ js ''c'' @ [34] @ js ''d''"

definition quotedExample :: jsstring where
  "quotedExample = js ''\"a,b\<newline>c\"\"d\",x\<newline>''"

text \<open>
  The numeric parsing as the specification words it: every character is stripped that is
  not a digit, a comma, a period or a leading minus sign (a minus sign with nothing kept
  before it); then the comma is read as the decimal point, and a text that does not parse
  to a finite number gives zero.
\<close>

fun stripSpec :: "bool \<Rightarrow> jsstring \<Rightarrow> jsstring" where
  "stripSpec kept [] = []"
| "stripSpec kept (c # cs) =
     (if isDigit c \<or> c = 44 \<or> c = 46 then c # stripSpec True cs
      else if c = 45 \<and> \<not> kept then c # stripSpec True cs
      else stripSpec kept cs)"

definition safeNum_spec :: "jsstring \<Rightarrow> jsnum" where
  "safeNum_spec v =
     (let s = replaceFirstComma (stripSpec False (norm_text v));
          n = Number s
      in if isFinite n then n else Fin 0)"

text \<open>
  The time at which a call that misses the cache issues its request: the time of the
  call when at least 1100 ms have passed since \<^verbatim>\<open>lastGeocodeAt\<close>, and otherwise the end of
  the wait.
\<close>

definition startTime :: "geoEnv \<Rightarrow> world \<Rightarrow> int" where
  "startTime env w =
     (let wait = max 0 (1100 - (clock w - lastGeocodeAt w)) in
      if wait \<noteq> 0 then clock w + wait + int (timerLate env) else clock w)"

text \<open>
  A query misses when it is not empty, the stored cache has no value for it, and it can
  be encoded into the request: then the call reaches the network.
\<close>

definition misses :: "jsstring \<Rightarrow> world \<Rightarrow> bool" where
  "misses q w \<longleftrightarrow> q \<noteq> [] \<and> cacheGet (loadGeocodeCache w) q = Missing \<and> \<not> loneSurrogate q"

text \<open>The object the source builds from the first candidate.\<close>

definition hitOf :: "candidate \<Rightarrow> hit" where
  "hitOf c = \<lparr>h_lat = c_lat c, h_lng = c_lon c, h_display = c_display_name c\<rparr>"

text \<open>
  The answers after which the source writes the cache and the write goes through: a
  success response with a first candidate of finite coordinates, and a storage that can
  be written.
\<close>

definition stored :: "geoEnv \<Rightarrow> bool" where
  "stored env \<longleftrightarrow>
     (case fetched env of
        GeoResponse ok (Json data) \<Rightarrow>
          ok \<and> data \<noteq> [] \<and> isFinite (c_lat (hd data)) \<and> isFinite (c_lon (hd data)) \<and>
          storageWritable env
      | _ \<Rightarrow> False)"

text \<open>
  A page that has just been loaded (\<^verbatim>\<open>lastGeocodeAt\<close> still 0, nothing stored), a candidate
  of the service, and four ways a call can go.
\<close>

definition world0 :: world where
  "world0 = \<lparr>clock = 1700000000000, lastGeocodeAt = 0, storage = NoItem, events = []\<rparr>"

definition romaCandidate :: candidate where
  "romaCandidate = \<lparr>c_lat = Fin (419 / 10), c_lon = Fin (25 / 2), c_display_name = js ''Roma, Italia''\<rparr>"

definition envFound :: geoEnv where
  "envFound = \<lparr>timerLate = 3, fetchTime = 250, fetched = GeoResponse True (Json [romaCandidate]),
     storageWritable = True\<rparr>"

definition envRejected :: geoEnv where
  "envRejected = \<lparr>timerLate = 0, fetchTime = 5, fetched = GeoRejected, storageWritable = True\<rparr>"

definition envUnwritable :: geoEnv where
  "envUnwritable = \<lparr>timerLate = 3, fetchTime = 250, fetched = GeoResponse True (Json [romaCandidate]),
     storageWritable = False\<rparr>"

definition envNoMatch :: geoEnv where
  "envNoMatch = \<lparr>timerLate = 3, fetchTime = 250, fetched = GeoResponse True (Json []),
     storageWritable = True\<rparr>"

section \<open>Properties of the text functions\<close>

lemma js_slash [simp]: "js ''/'' = [47]"
  by (simp add: js_def)

lemma js_dash [simp]: "js ''-'' = [45]"
  by (simp add: js_def)

lemma digit_not_space: "isDigit c \<Longrightarrow> \<not> isSpace c"
  by (auto simp: isDigit_def isSpace_def)

lemma dropWhile_id: "xs = [] \<or> \<not> P (hd xs) \<Longrightarrow> dropWhile P xs = xs"
  by (cases xs) auto

lemma trim_id: "s = [] \<or> (\<not> isSpace (hd s) \<and> \<not> isSpace (last s)) \<Longrightarrow> trim s = s"
  by (cases "s = []") (auto simp: trim_def dropWhile_id hd_rev)

lemma trim_ends: "trim s = [] \<or> (\<not> isSpace (hd (trim s)) \<and> \<not> isSpace (last (trim s)))"
proof -
  let ?a = "dropWhile isSpace s"
  let ?b = "dropWhile isSpace (rev ?a)"
  have b: "?b = [] \<or> \<not> isSpace (hd ?b)" by (metis hd_dropWhile)
  have a: "?a = [] \<or> \<not> isSpace (hd ?a)" by (metis hd_dropWhile)
  show ?thesis
  proof (cases "?b = []")
    case True then show ?thesis by (simp add: trim_def)
  next
    case False
    from False b have hb: "\<not> isSpace (hd ?b)" by blast
    from False have "last (rev ?b) = hd ?b" by (simp add: last_rev)
    with hb have l: "\<not> isSpace (last (rev ?b))" by simp
    from False have ne: "?a \<noteq> []" by (metis dropWhile.simps(1) rev.simps(1))
    obtain pre where pre: "rev ?a = pre @ ?b" by (metis takeWhile_dropWhile_id)
    then have "?a = rev ?b @ rev pre" by (metis rev_append rev_rev_ident)
    with False have "hd (rev ?b) = hd ?a" by (metis hd_append2 rev_is_Nil_conv)
    with a ne have "\<not> isSpace (hd (rev ?b))" by metis
    with l show ?thesis unfolding trim_def by blast
  qed
qed

lemma trim_idem: "trim (trim s) = trim s"
  using trim_ends[of s] by (intro trim_id) auto

lemma takeDigits_Some:
  "takeDigits k s = Some (d, r) \<longleftrightarrow> length d = k \<and> list_all isDigit d \<and> s = d @ r"
  unfolding takeDigits_def
  by (auto simp: min_def)

lemma takeDigits_append:
  "length d = k \<Longrightarrow> list_all isDigit d \<Longrightarrow> takeDigits k (d @ r) = Some (d, r)"
  by (simp add: takeDigits_Some)

lemma expect_Some: "expect c s = Some r \<longleftrightarrow> s = c # r"
  by (auto simp: expect_def split: list.splits)

lemma matchDateWith_intro:
  assumes "length d = kd" "length m = km" "length y = 4"
    and "list_all isDigit d" "list_all isDigit m" "list_all isDigit y"
  shows "matchDateWith kd km (d @ [47] @ m @ [47] @ y) = Some (d, m, y)"
proof -
  have y: "takeDigits 4 y = Some (y, [])"
    using takeDigits_append[of y 4 "[]"] assms by simp
  show ?thesis
    unfolding matchDateWith_def
    using assms by (simp add: takeDigits_append expect_def y)
qed

lemma matchDateWith_elim:
  assumes "matchDateWith kd km s = Some (d, m, y)"
  shows "length d = kd \<and> length m = km \<and> length y = 4 \<and> list_all isDigit d \<and> list_all isDigit m \<and>
     list_all isDigit y \<and> s = d @ [47] @ m @ [47] @ y"
proof -
  from assms obtain d1 r1 where 1: "takeDigits kd s = Some (d1, r1)"
    unfolding matchDateWith_def by (auto split: option.splits)
  with assms obtain r2 where 2: "expect 47 r1 = Some r2"
    unfolding matchDateWith_def by (auto split: option.splits)
  with 1 assms obtain m1 r3 where 3: "takeDigits km r2 = Some (m1, r3)"
    unfolding matchDateWith_def by (auto split: option.splits)
  with 1 2 assms obtain r4 where 4: "expect 47 r3 = Some r4"
    unfolding matchDateWith_def by (auto split: option.splits)
  with 1 2 3 assms obtain y1 r5 where 5: "takeDigits 4 r4 = Some (y1, r5)"
    unfolding matchDateWith_def by (auto split: option.splits)
  with 1 2 3 4 assms have 6: "r5 = [] \<and> d = d1 \<and> m = m1 \<and> y = y1"
    unfolding matchDateWith_def by (auto split: if_splits)
  from 1 have a: "length d1 = kd \<and> list_all isDigit d1 \<and> s = d1 @ r1" by (simp add: takeDigits_Some)
  from 2 have b: "r1 = 47 # r2" by (simp add: expect_Some)
  from 3 have c: "length m1 = km \<and> list_all isDigit m1 \<and> r2 = m1 @ r3" by (simp add: takeDigits_Some)
  from 4 have d: "r3 = 47 # r4" by (simp add: expect_Some)
  from 5 have e: "length y1 = 4 \<and> list_all isDigit y1 \<and> r4 = y1 @ r5" by (simp add: takeDigits_Some)
  from a b c d e 6 show ?thesis by simp
qed

lemma takeWhile_digits:
  "list_all isDigit d \<Longrightarrow> takeWhile isDigit (d @ 47 # r) = d"
  by (induction d) (auto simp: isDigit_def)

lemma dmy_unique:
  assumes "d @ [47] @ m @ [47] @ y = d' @ [47] @ m' @ [47] @ y'"
    and "list_all isDigit d" "list_all isDigit m" "list_all isDigit d'" "list_all isDigit m'"
  shows "d = d' \<and> m = m' \<and> y = y'"
proof -
  from assms(1) have e: "d @ 47 # (m @ 47 # y) = d' @ 47 # (m' @ 47 # y')" by simp
  have "takeWhile isDigit (d @ 47 # (m @ 47 # y)) = d" using assms(2) by (rule takeWhile_digits)
  moreover have "takeWhile isDigit (d' @ 47 # (m' @ 47 # y')) = d'"
    using assms(4) by (rule takeWhile_digits)
  ultimately have d: "d = d'" using e by simp
  with e have e2: "m @ 47 # y = m' @ 47 # y'" by simp
  have "takeWhile isDigit (m @ 47 # y) = m" using assms(3) by (rule takeWhile_digits)
  moreover have "takeWhile isDigit (m' @ 47 # y') = m'" using assms(5) by (rule takeWhile_digits)
  ultimately have m: "m = m'" using e2 by simp
  with e2 d show ?thesis by simp
qed

lemma matchDateWith_unique:
  assumes "matchDateWith kd km s = Some g" "matchDateWith kd' km' s = Some g'"
  shows "g = g'"
proof -
  obtain d m y where g: "g = (d, m, y)" by (cases g) auto
  obtain d' m' y' where g': "g' = (d', m', y')" by (cases g') auto
  note a = matchDateWith_elim[OF assms(1)[unfolded g]]
  note b = matchDateWith_elim[OF assms(2)[unfolded g']]
  from a b have "d @ [47] @ m @ [47] @ y = d' @ [47] @ m' @ [47] @ y'" by simp
  from dmy_unique[OF this] a b show ?thesis by (simp add: g g')
qed

lemma firstMatch_Some:
  "firstMatch ks s = Some g \<longleftrightarrow> (\<exists>(kd, km) \<in> set ks. matchDateWith kd km s = Some g)"
proof (induction ks)
  case Nil
  then show ?case by simp
next
  case (Cons k ks)
  obtain kd km where k: "k = (kd, km)" by (cases k) auto
  show ?case
  proof (cases "matchDateWith kd km s")
    case None
    with Cons k show ?thesis by simp
  next
    case (Some h)
    then have "\<And>kd' km'. matchDateWith kd' km' s = Some g \<Longrightarrow> g = h"
      using matchDateWith_unique by blast
    with Some k show ?thesis by auto
  qed
qed

lemma matchDate_Some:
  "matchDate s = Some (d, m, y) \<longleftrightarrow> dmyShape d m y \<and> s = dmyText d m y"
proof
  assume "matchDate s = Some (d, m, y)"
  then obtain kd km where k: "(kd, km) \<in> {(2, 2), (2, 1), (1, 2), (1, 1::nat)}"
    and mt: "matchDateWith kd km s = Some (d, m, y)"
    unfolding matchDate_def firstMatch_Some by auto
  from matchDateWith_elim[OF mt] k show "dmyShape d m y \<and> s = dmyText d m y"
    by (auto simp: dmyShape_def dmyText_def)
next
  assume a: "dmyShape d m y \<and> s = dmyText d m y"
  then have "matchDateWith (length d) (length m) (d @ [47] @ m @ [47] @ y) = Some (d, m, y)"
    by (intro matchDateWith_intro) (simp_all add: dmyShape_def)
  with a have "matchDateWith (length d) (length m) s = Some (d, m, y)"
    by (simp add: dmyText_def)
  moreover from a have "(length d, length m) \<in> {(2, 2), (2, 1), (1, 2), (1, 1::nat)}"
    by (auto simp: dmyShape_def)
  ultimately show "matchDate s = Some (d, m, y)"
    unfolding matchDate_def firstMatch_Some by (intro bexI[of _ "(length d, length m)"]) auto
qed

lemma norm_dmyText: "dmyShape d m y \<Longrightarrow> norm_text (dmyText d m y) = dmyText d m y"
  unfolding norm_text_def
  by (rule trim_id) (auto simp: dmyShape_def dmyText_def list_all_iff length_Suc_conv digit_not_space
      numeral_eq_Suc)

lemma toISO_shape:
  "dmyShape d m y \<Longrightarrow> norm_text v = dmyText d m y \<Longrightarrow> toISO v = isoText d m y"
  using matchDate_Some[of "dmyText d m y" d m y] by (simp add: toISO_def isoText_def)

lemma toISO_nonempty:
  "toISO v \<noteq> [] \<longleftrightarrow> (\<exists>d m y. dmyShape d m y \<and> norm_text v = dmyText d m y)"
proof
  assume "toISO v \<noteq> []"
  then obtain d m y where "matchDate (norm_text v) = Some (d, m, y)"
    by (auto simp: toISO_def split: option.splits)
  then show "\<exists>d m y. dmyShape d m y \<and> norm_text v = dmyText d m y"
    using matchDate_Some by blast
next
  assume "\<exists>d m y. dmyShape d m y \<and> norm_text v = dmyText d m y"
  then obtain d m y where s: "dmyShape d m y" "norm_text v = dmyText d m y" by blast
  then have "toISO v = isoText d m y" by (rule toISO_shape)
  moreover from s have "y \<noteq> []" by (auto simp: dmyShape_def)
  ultimately show "toISO v \<noteq> []" by (simp add: isoText_def)
qed

lemma mset_insertElement: "mset (insertElement cmp x ys) = add_mset x (mset ys)"
  by (induction ys) auto

lemma mset_foldl_insert:
  "mset (foldl (\<lambda>sorted element. insertElement cmp element sorted) acc xs) = mset acc + mset xs"
  by (induction xs arbitrary: acc) (auto simp: mset_insertElement)

lemma mset_sortArray: "mset (sortArray cmp xs) = mset xs"
  by (simp add: sortArray_def mset_foldl_insert)

lemma set_sortArray: "set (sortArray cmp xs) = set xs"
  by (metis mset_sortArray set_mset_mset)

lemmas text_defs = js_def isSpace_def isDigit_def isWord_def trim_def norm_text_def padStart0_def

lemmas date_defs = toISO_def matchDate_def matchDateWith_def takeDigits_def expect_def isoText_def
  dmyText_def dmyShape_def

lemmas key_defs = keyifyHeader_def low_def toLowerCase_def lowerUnit_def stripDiacritics_def
  baseUnit_def normalizedAliases_def

lemmas csv_defs = parseCSV_def endRow_def nonBlankRow_def

section \<open>Properties of load\<close>

lemma load_Loaded:
  assumes "load res st = (Loaded, st')"
  obtains csv where "res = Response True (Some csv)" "parseCSV csv \<noteq> []"
    "\<not> dateColumnMissing (buildHeaderIndex (hd (parseCSV csv)))"
    "rows st' = sortArray compareRows (filter (\<lambda>r. f_dateISO r \<noteq> [])
        (map (makeRecord (buildHeaderIndex (hd (parseCSV csv)))) (tl (parseCSV csv))))"
proof (cases res)
  case FetchRejected
  with assms show ?thesis by (simp add: load_def Let_def)
next
  case (Response ok body)
  show ?thesis
  proof (cases body)
    case None
    with assms Response show ?thesis by (simp add: load_def Let_def split: if_splits)
  next
    case (Some csv)
    from assms Response Some have ok: "ok" by (simp add: load_def Let_def split: if_splits)
    from assms Response Some ok have ne: "parseCSV csv \<noteq> []"
      by (simp add: load_def Let_def split: if_splits)
    from assms Response Some ok ne
    have dc: "\<not> dateColumnMissing (buildHeaderIndex (hd (parseCSV csv)))"
      by (simp add: load_def Let_def split: if_splits)
    from assms Response Some ok ne dc
    have "rows st' = sortArray compareRows (filter (\<lambda>r. f_dateISO r \<noteq> [])
        (map (makeRecord (buildHeaderIndex (hd (parseCSV csv)))) (tl (parseCSV csv))))"
      by (auto simp add: load_def Let_def)
    with that Response Some ok ne dc show ?thesis by blast
  qed
qed

lemma trim_Nil [simp]: "trim [] = []"
  by (simp add: trim_def)

lemma norm_getCell: "norm_text (getCell raw idx c) = getCell raw idx c"
  by (simp add: getCell_def norm_text_def trim_idem split: option.splits)

lemma makeRecord_date [simp]:
  "f_date (makeRecord idx raw) = getCell raw idx Date"
  by (simp add: makeRecord_def Let_def)

lemma makeRecord_dateISO [simp]:
  "f_dateISO (makeRecord idx raw) = toISO (getCell raw idx Date)"
  by (simp add: makeRecord_def Let_def)

lemma makeRecord_activity [simp]:
  "f_activity (makeRecord idx raw) = getCell raw idx Activity"
  by (simp add: makeRecord_def Let_def)

lemma working_set_member:
  assumes "load res st = (Loaded, st')" "r \<in> set (rows st')"
  shows "toISO (f_date r) \<noteq> [] \<and> f_dateISO r = toISO (f_date r) \<and> norm_text (f_date r) = f_date r"
proof -
  from assms(1) obtain csv where
    rs: "rows st' = sortArray compareRows (filter (\<lambda>r. f_dateISO r \<noteq> [])
        (map (makeRecord (buildHeaderIndex (hd (parseCSV csv)))) (tl (parseCSV csv))))"
    by (rule load_Loaded)
  with assms(2) obtain raw where "r = makeRecord (buildHeaderIndex (hd (parseCSV csv))) raw"
    and "f_dateISO r \<noteq> []"
    by (auto simp: set_sortArray)
  then show ?thesis by (simp add: norm_getCell)
qed

lemma working_set_retains:
  assumes "load (Response True (Some csv)) st = (Loaded, st')"
    and "raw \<in> set (tl (parseCSV csv))"
    and "toISO (getCell raw (buildHeaderIndex (hd (parseCSV csv))) Date) \<noteq> []"
  shows "makeRecord (buildHeaderIndex (hd (parseCSV csv))) raw \<in> set (rows st')"
proof -
  from assms(1) obtain csv' where "Response True (Some csv) = Response True (Some csv')"
    and rs: "rows st' = sortArray compareRows (filter (\<lambda>r. f_dateISO r \<noteq> [])
        (map (makeRecord (buildHeaderIndex (hd (parseCSV csv')))) (tl (parseCSV csv'))))"
    by (rule load_Loaded)
  then have "csv' = csv" by simp
  with rs assms(2,3) show ?thesis by (simp add: set_sortArray)
qed

section \<open>Properties of the header resolver\<close>

lemma foldl_upd_index:
  "distinct ks \<Longrightarrow>
   foldl (\<lambda>idx c. idx(c \<mapsto> f c)) m ks c' = (if c' \<in> set ks then Some (f c') else m c')"
  by (induction ks arbitrary: m) auto

lemma canonicalKeys_all: "c \<in> set canonicalKeys"
  by (cases c) (simp_all add: canonicalKeys_def)

lemma canonicalKeys_distinct: "distinct canonicalKeys"
  by (simp add: canonicalKeys_def)

lemma buildHeaderIndex_apply:
  "buildHeaderIndex headerRow c =
     Some (findIndex (\<lambda>headerKey. headerKey \<in> set (normalizedAliases c)) (map keyifyHeader headerRow))"
  unfolding buildHeaderIndex_def Let_def
  by (simp add: foldl_upd_index[OF canonicalKeys_distinct] canonicalKeys_all)

lemma keys_Inc: "normalizedAliases Inc = [js ''inc'', js ''index'', [], js ''id'']"
  by (simp add: key_defs text_defs)

lemma keys_Days:
  "normalizedAliases Days = [js ''n days'', js ''n. days'', js ''days'', js ''giorni'', js ''durata'']"
  by (simp add: key_defs text_defs)

lemma keys_Date: "normalizedAliases Date = [js ''data'', js ''date'', js ''giorno'']"
  by (simp add: key_defs text_defs)

lemma keys_Activity:
  "normalizedAliases Activity = [js ''attivit'', js ''attivita'', js ''activity'', js ''tipo'', js ''type'']"
  by (simp add: key_defs text_defs)

lemma keys_From:
  "normalizedAliases From =
     [js ''partenza'', js ''da'', js ''from'', js ''start'', js ''origine'', js ''departure'']"
  by (simp add: key_defs text_defs)

lemma keys_To:
  "normalizedAliases To =
     [js ''arrivo'', js ''a'', js ''to'', js ''end'', js ''destinazione'', js ''arrival'']"
  by (simp add: key_defs text_defs)

lemma keys_Place:
  "normalizedAliases Place =
     [js ''luogo'', js ''citta'', js ''citt'', js ''city'', js ''location'', js ''tappa'', js ''stop'']"
  by (simp add: key_defs text_defs)

lemma keys_Km: "normalizedAliases Km = [js ''km'', js ''kms'', js ''distanza'', js ''distance'']"
  by (simp add: key_defs text_defs)

lemma keys_Lodging:
  "normalizedAliases Lodging =
     [js ''pernottamento'', js ''hotel'', js ''alloggio'', js ''accommodation'', js ''lodging'']"
  by (simp add: key_defs text_defs)

lemma keys_Status:
  "normalizedAliases Status = [js ''stato'', js ''status'', js ''prenotazione'', js ''booking status'']"
  by (simp add: key_defs text_defs)

lemma keys_Cost:
  "normalizedAliases Cost = [js ''costo'', js ''cost'', js ''prezzo'', js ''price'', js ''budget'']"
  by (simp add: key_defs text_defs)

lemma keys_Notes:
  "normalizedAliases Notes = [js ''note'', js ''notes'', js ''commenti'', js ''comment'', js ''memo'']"
  by (simp add: key_defs text_defs)

lemma keys_Address:
  "normalizedAliases Address =
     [js ''indirizzo'', js ''address'', js ''location address'', js ''place address'']"
  by (simp add: key_defs text_defs)

lemma keys_Link:
  "normalizedAliases Link = [js ''link'', js ''url'', js ''booking link'', js ''website'']"
  by (simp add: key_defs text_defs)

lemmas normalizedAliases_eval = keys_Inc keys_Days keys_Date keys_Activity keys_From keys_To
  keys_Place keys_Km keys_Lodging keys_Status keys_Cost keys_Notes keys_Address keys_Link

lemma findIndex_range: "- 1 \<le> findIndex P xs \<and> findIndex P xs < int (length xs)"
  by (induction xs) (auto simp: Let_def)

lemma findIndex_absent: "findIndex P xs < 0 \<Longrightarrow> findIndex P xs = - 1 \<and> (\<forall>x \<in> set xs. \<not> P x)"
proof (induction xs)
  case Nil
  then show ?case by simp
next
  case (Cons x xs)
  then show ?case
    using findIndex_range[of P xs] by (auto simp: Let_def split: if_splits)
qed

lemma findIndex_found:
  "0 \<le> findIndex P xs \<Longrightarrow>
     nat (findIndex P xs) < length xs \<and> P (xs ! nat (findIndex P xs)) \<and>
     (\<forall>k < nat (findIndex P xs). \<not> P (xs ! k))"
proof (induction xs)
  case Nil
  then show ?case by simp
next
  case (Cons x xs)
  show ?case
  proof (cases "P x")
    case True
    then show ?thesis by simp
  next
    case False
    with Cons.prems have nn: "0 \<le> findIndex P xs"
      by (auto simp: Let_def split: if_splits)
    with False have eq: "findIndex P (x # xs) = findIndex P xs + 1"
      by (simp add: Let_def)
    from nn have n: "nat (findIndex P xs + 1) = Suc (nat (findIndex P xs))" by simp
    from Cons.IH[OF nn] False show ?thesis
      unfolding eq n by (auto simp: less_Suc_eq_0_disj)
  qed
qed

lemma all_keys_distinct: "distinct (concat (map normalizedAliases canonicalKeys))"
  by (simp add: canonicalKeys_def normalizedAliases_eval js_def)

lemma concat_distinct_disjoint:
  "distinct (concat (map f ks)) \<Longrightarrow> c \<in> set ks \<Longrightarrow> c' \<in> set ks \<Longrightarrow> c \<noteq> c' \<Longrightarrow>
     set (f c) \<inter> set (f c') = {}"
  by (induction ks) auto

lemma aliases_disjoint:
  "c \<noteq> c' \<Longrightarrow> k \<in> set (normalizedAliases c) \<Longrightarrow> k \<notin> set (normalizedAliases c')"
  using concat_distinct_disjoint[OF all_keys_distinct canonicalKeys_all canonicalKeys_all, of c c']
  by auto

lemma headerExample_keys:
  "map keyifyHeader headerExample = [js ''tipo'', js ''data'', js ''date'', js ''km'']"
  by (simp add: headerExample_def key_defs text_defs)

section \<open>Worked examples of load\<close>

lemma load_success:
  assumes "parseCSV csv = header # data"
    and "0 \<le> findIndex (\<lambda>headerKey. headerKey \<in> set (normalizedAliases Date)) (map keyifyHeader header)"
  shows "fst (load (Response True (Some csv)) st) = Loaded"
    and "rows (snd (load (Response True (Some csv)) st)) =
      sortArray compareRows (filter (\<lambda>r. f_dateISO r \<noteq> []) (map (makeRecord (buildHeaderIndex header)) data))"
  using assms by (simp_all add: load_def Let_def dateColumnMissing_def buildHeaderIndex_apply)

lemma sortArray_single [simp]: "sortArray cmp [x] = [x]"
  by (simp add: sortArray_def)

lemma sortArray_Nil [simp]: "sortArray cmp [] = []"
  by (simp add: sortArray_def)

lemma headerDataTipo_keys:
  "map keyifyHeader [js ''Data'', js ''Tipo''] = [js ''data'', js ''tipo'']"
  by (simp add: key_defs text_defs)

lemma headerDataTipo_Date: "buildHeaderIndex [js ''Data'', js ''Tipo''] Date = Some 0"
  unfolding buildHeaderIndex_apply headerDataTipo_keys keys_Date by (simp add: js_def)

lemma headerDataTipo_Activity: "buildHeaderIndex [js ''Data'', js ''Tipo''] Activity = Some 1"
  unfolding buildHeaderIndex_apply headerDataTipo_keys keys_Activity by (simp add: js_def)

lemma sheetDates_parse:
  "parseCSV sheetDates =
     [[js ''Data'', js ''Tipo''], [js ''5/3/2024'', js ''Trip''], [js ''2024-03-05'', js ''Notte'']]"
  by (simp add: csv_defs sheetDates_def js_def trim_def isSpace_def)

lemma sheetOutOfRange_parse:
  "parseCSV sheetOutOfRange = [[js ''Data'', js ''Tipo''], [js ''99/99/2024'', js ''Notte'']]"
  by (simp add: csv_defs sheetOutOfRange_def js_def trim_def isSpace_def)

lemma toISO_examples:
  "toISO (js ''5/3/2024'') = js ''2024-03-05''"
  "toISO (js ''2024-03-05'') = []"
  "toISO (js ''99/99/2024'') = js ''2024-99-99''"
  "toISO (js '' 5/3/2024 '') = js ''2024-03-05''"
  by (simp_all add: date_defs text_defs)

lemma sheetDates_loaded: "fst (load (Response True (Some sheetDates)) freshApp) = Loaded"
  by (rule load_success(1)[OF sheetDates_parse])
     (unfold headerDataTipo_keys keys_Date, simp add: js_def)

lemma sheetDates_rows:
  "rows (snd (load (Response True (Some sheetDates)) freshApp)) =
     [makeRecord (buildHeaderIndex [js ''Data'', js ''Tipo'']) [js ''5/3/2024'', js ''Trip'']]"
proof -
  have 1: "getCell [js ''5/3/2024'', js ''Trip''] (buildHeaderIndex [js ''Data'', js ''Tipo'']) Date = js ''5/3/2024''"
    unfolding getCell_def headerDataTipo_Date by (simp add: text_defs)
  have 2: "getCell [js ''2024-03-05'', js ''Notte''] (buildHeaderIndex [js ''Data'', js ''Tipo'']) Date = js ''2024-03-05''"
    unfolding getCell_def headerDataTipo_Date by (simp add: text_defs)
  have 3: "js ''2024-03-05'' \<noteq> []" by (simp add: js_def)
  have "rows (snd (load (Response True (Some sheetDates)) freshApp)) =
      sortArray compareRows (filter (\<lambda>r. f_dateISO r \<noteq> [])
        (map (makeRecord (buildHeaderIndex [js ''Data'', js ''Tipo'']))
          [[js ''5/3/2024'', js ''Trip''], [js ''2024-03-05'', js ''Notte'']]))"
    by (rule load_success(2)[OF sheetDates_parse])
       (unfold headerDataTipo_keys keys_Date, simp add: js_def)
  then show ?thesis by (simp add: 1 2 3 toISO_examples)
qed

lemma sheetOutOfRange_loaded: "fst (load (Response True (Some sheetOutOfRange)) freshApp) = Loaded"
  by (rule load_success(1)[OF sheetOutOfRange_parse])
     (unfold headerDataTipo_keys keys_Date, simp add: js_def)

lemma sheetOutOfRange_cell:
  "getCell [js ''99/99/2024'', js ''Notte''] (buildHeaderIndex [js ''Data'', js ''Tipo'']) Date = js ''99/99/2024''"
  unfolding getCell_def headerDataTipo_Date by (simp add: text_defs)

lemma sheetOutOfRange_rows:
  "rows (snd (load (Response True (Some sheetOutOfRange)) freshApp)) =
     [makeRecord (buildHeaderIndex [js ''Data'', js ''Tipo'']) [js ''99/99/2024'', js ''Notte'']]"
proof -
  have 3: "js ''2024-99-99'' \<noteq> []" by (simp add: js_def)
  have "rows (snd (load (Response True (Some sheetOutOfRange)) freshApp)) =
      sortArray compareRows (filter (\<lambda>r. f_dateISO r \<noteq> [])
        (map (makeRecord (buildHeaderIndex [js ''Data'', js ''Tipo'']))
          [[js ''99/99/2024'', js ''Notte'']]))"
    by (rule load_success(2)[OF sheetOutOfRange_parse])
       (unfold headerDataTipo_keys keys_Date, simp add: js_def)
  then show ?thesis by (simp add: sheetOutOfRange_cell 3 toISO_examples)
qed

section \<open>Failing loads\<close>

lemma load_rejected: "load FetchRejected st = (Failed TransportError, loading st)"
  by (simp add: load_def Let_def loading_def)

lemma load_not_ok: "load (Response False body) st = (Failed CsvNotLoaded, loading st)"
  by (simp add: load_def Let_def loading_def)

lemma load_no_body: "load (Response True None) st = (Failed TransportError, loading st)"
  by (simp add: load_def Let_def loading_def)

lemma load_empty:
  "parseCSV csv = [] \<Longrightarrow> load (Response True (Some csv)) st = (Failed CsvEmpty, loading st)"
  by (simp add: load_def Let_def loading_def)

lemma load_no_date:
  "parseCSV csv \<noteq> [] \<Longrightarrow> dateColumnMissing (buildHeaderIndex (hd (parseCSV csv))) \<Longrightarrow>
     load (Response True (Some csv)) st = (Failed NoDateColumn, loading st)"
  by (simp add: load_def Let_def loading_def)

lemma load_loaded:
  "parseCSV csv \<noteq> [] \<Longrightarrow> \<not> dateColumnMissing (buildHeaderIndex (hd (parseCSV csv))) \<Longrightarrow>
     fst (load (Response True (Some csv)) st) = Loaded"
  by (simp add: load_def Let_def)

lemma load_failed_state:
  assumes "fst (load res st) = Failed e"
  shows "snd (load res st) = loading st"
proof (cases res)
  case FetchRejected
  then show ?thesis by (simp add: load_rejected)
next
  case (Response ok body)
  show ?thesis
  proof (cases ok)
    case False
    with Response show ?thesis by (simp add: load_not_ok)
  next
    case True
    show ?thesis
    proof (cases body)
      case None
      with Response True show ?thesis by (simp add: load_no_body)
    next
      case (Some csv)
      show ?thesis
      proof (cases "parseCSV csv = []")
        case e: True
        with Response True Some show ?thesis by (simp add: load_empty)
      next
        case ne: False
        show ?thesis
        proof (cases "dateColumnMissing (buildHeaderIndex (hd (parseCSV csv)))")
          case d: True
          with Response True Some ne show ?thesis by (simp add: load_no_date)
        next
          case d: False
          with Response True Some ne assms show ?thesis by (simp add: load_loaded)
        qed
      qed
    qed
  qed
qed

lemma dateColumnMissing_iff:
  "dateColumnMissing (buildHeaderIndex headerRow) \<longleftrightarrow>
     (\<forall>k < length headerRow. keyifyHeader (headerRow ! k) \<notin> set (normalizedAliases Date))"
proof -
  let ?i = "findIndex (\<lambda>k. k \<in> set (normalizedAliases Date)) (map keyifyHeader headerRow)"
  have "?i < 0 \<longleftrightarrow> (\<forall>k < length headerRow. keyifyHeader (headerRow ! k) \<notin> set (normalizedAliases Date))"
  proof
    assume "?i < 0"
    from findIndex_absent[OF this] show "\<forall>k < length headerRow. keyifyHeader (headerRow ! k) \<notin> set (normalizedAliases Date)"
      by auto
  next
    assume a: "\<forall>k < length headerRow. keyifyHeader (headerRow ! k) \<notin> set (normalizedAliases Date)"
    show "?i < 0"
    proof (rule ccontr)
      assume "\<not> ?i < 0"
      then have "0 \<le> ?i" by simp
      from findIndex_found[OF this] a show False by auto
    qed
  qed
  then show ?thesis by (simp add: dateColumnMissing_def buildHeaderIndex_apply)
qed

lemma sheetNoDate_parse:
  "parseCSV sheetNoDate = [[js ''Giorno X'', js ''Tipo''], [js ''5/3/2024'', js ''Trip'']]"
  by (simp add: csv_defs sheetNoDate_def js_def trim_def isSpace_def)

lemma sheetNoDate_keys:
  "map keyifyHeader [js ''Giorno X'', js ''Tipo''] = [js ''giorno x'', js ''tipo'']"
  by (simp add: key_defs text_defs)

lemma sheetNoDate_header:
  "\<forall>k < length (hd (parseCSV sheetNoDate)).
      keyifyHeader (hd (parseCSV sheetNoDate) ! k) \<notin> set (normalizedAliases Date)"
proof -
  have k1: "keyifyHeader (js ''Giorno X'') = js ''giorno x''"
    and k2: "keyifyHeader (js ''Tipo'') = js ''tipo''"
    using sheetNoDate_keys by simp_all
  have "js ''giorno x'' \<notin> set (normalizedAliases Date) \<and> js ''tipo'' \<notin> set (normalizedAliases Date)"
    unfolding keys_Date by (simp add: js_def)
  then have "list_all (\<lambda>h. keyifyHeader h \<notin> set (normalizedAliases Date)) [js ''Giorno X'', js ''Tipo'']"
    by (simp only: list.pred_inject k1 k2 simp_thms)
  then show ?thesis
    unfolding sheetNoDate_parse list.sel by (simp only: list_all_length) 
qed

lemma parseCSV_Nil: "parseCSV [] = []"
  by (simp add: parseCSV_def)

section \<open>The sort of the working set\<close>

lemma localeCompare_less: "localeCompare a b < 0 \<longleftrightarrow> a < b"
  by (induction a b rule: localeCompare.induct) auto

lemma localeCompare_eq: "localeCompare a b = 0 \<longleftrightarrow> a = b"
  by (induction a b rule: localeCompare.induct) auto

lemma localeCompare_greater: "localeCompare a b > 0 \<longleftrightarrow> b < a"
  by (induction a b rule: localeCompare.induct) auto

lemma keyLe_trans: "keyLe a b \<Longrightarrow> keyLe b c \<Longrightarrow> keyLe a c"
  unfolding keyLe_def by (metis less_trans)

lemma compareRows_pos: "compareRows a b > 0 \<Longrightarrow> keyLe b a"
  unfolding compareRows_def keyLe_def isTrip_def Let_def
  by (auto simp: localeCompare_greater localeCompare_eq split: if_splits)

lemma compareRows_nonpos: "\<not> compareRows a b > 0 \<Longrightarrow> keyLe a b"
  unfolding compareRows_def keyLe_def isTrip_def Let_def
  using localeCompare_less[of "f_dateISO a" "f_dateISO b"] localeCompare_eq[of "f_dateISO a" "f_dateISO b"]
  by (auto split: if_splits)

lemma set_insertElement: "set (insertElement cmp x ys) = insert x (set ys)"
  by (induction ys) auto

lemma insertElement_sorted:
  assumes k: "keyed le cmp"
  shows "sorted_wrt (\<lambda>a b. le b a) ys \<Longrightarrow> sorted_wrt (\<lambda>a b. le b a) (insertElement cmp x ys)"
proof (induction ys)
  case Nil
  then show ?case by simp
next
  case (Cons y ys)
  show ?case
  proof (cases "cmp y x > 0")
    case True
    with k have "le x y" by (simp add: keyed_def)
    with Cons True show ?thesis by (auto simp: set_insertElement)
  next
    case False
    with k have yx: "le y x" by (simp add: keyed_def)
    have "\<forall>z \<in> set ys. le z x"
    proof
      fix z assume "z \<in> set ys"
      with Cons.prems have "le z y" by simp
      with yx k show "le z x" unfolding keyed_def by blast
    qed
    with Cons.prems False yx show ?thesis by simp
  qed
qed

lemma foldl_insert_sorted:
  assumes k: "keyed le cmp"
  shows "sorted_wrt (\<lambda>a b. le b a) acc \<Longrightarrow>
    sorted_wrt (\<lambda>a b. le b a) (foldl (\<lambda>sorted element. insertElement cmp element sorted) acc xs)"
proof (induction xs arbitrary: acc)
  case Nil
  then show ?case by simp
next
  case (Cons x xs)
  from Cons.prems have "sorted_wrt (\<lambda>a b. le b a) (insertElement cmp x acc)"
    by (rule insertElement_sorted[OF k])
  from Cons.IH[OF this] show ?case by simp
qed

lemma sortArray_keySorted:
  assumes k: "keyed le cmp"
  shows "sorted_wrt le (sortArray cmp xs)"
proof -
  have "sorted_wrt (\<lambda>a b. le b a) []" by simp
  then have "sorted_wrt (\<lambda>a b. le b a) (foldl (\<lambda>sorted element. insertElement cmp element sorted) [] xs)"
    by (rule foldl_insert_sorted[OF k])
  then show ?thesis by (simp add: sortArray_def sorted_wrt_rev)
qed

lemma keyed_compareRows: "keyed keyLe compareRows"
  unfolding keyed_def using keyLe_trans compareRows_pos compareRows_nonpos by blast

lemma rows_keySorted: "sorted_wrt keyLe (sortArray compareRows xs)"
  by (rule sortArray_keySorted[OF keyed_compareRows])

lemma working_set_activity:
  assumes "load res st = (Loaded, st')" "r \<in> set (rows st')"
  shows "norm_text (f_activity r) = f_activity r"
proof -
  from assms(1) obtain csv where
    rs: "rows st' = sortArray compareRows (filter (\<lambda>r. f_dateISO r \<noteq> [])
        (map (makeRecord (buildHeaderIndex (hd (parseCSV csv)))) (tl (parseCSV csv))))"
    by (rule load_Loaded)
  with assms(2) obtain raw where "r = makeRecord (buildHeaderIndex (hd (parseCSV csv))) raw"
    by (auto simp: set_sortArray)
  then show ?thesis by (simp add: norm_getCell)
qed

lemma loaded_ordered:
  assumes l: "load res st = (Loaded, st')"
  shows "ordered (rows st')"
  unfolding ordered_def
proof (intro conjI allI impI)
  from l obtain csv where
    rs: "rows st' = sortArray compareRows (filter (\<lambda>r. f_dateISO r \<noteq> [])
        (map (makeRecord (buildHeaderIndex (hd (parseCSV csv)))) (tl (parseCSV csv))))"
    by (rule load_Loaded)
  have srt: "sorted_wrt keyLe (rows st')" unfolding rs by (rule rows_keySorted)
  {
    fix i j assume "i < j \<and> j < length (rows st')"
    with srt have "keyLe (rows st' ! i) (rows st' ! j)"
      by (simp add: sorted_wrt_iff_nth_less)
    then show "f_dateISO (rows st' ! i) \<le> f_dateISO (rows st' ! j)"
      by (auto simp: keyLe_def)
  }
  {
    fix i j
    assume a: "i < length (rows st') \<and> j < length (rows st') \<and>
        f_dateISO (rows st' ! i) = f_dateISO (rows st' ! j) \<and>
        f_activity (rows st' ! i) = js ''Trip'' \<and> f_activity (rows st' ! j) \<noteq> js ''Trip''"
    then have ti: "isTrip (rows st' ! i)"
      using working_set_activity[OF l, of "rows st' ! i"] by (simp add: isTrip_def)
    from a have tj: "\<not> isTrip (rows st' ! j)"
      using working_set_activity[OF l, of "rows st' ! j"] by (simp add: isTrip_def)
    show "i < j"
    proof (rule ccontr)
      assume "\<not> i < j"
      with a have "j < i" by (cases "i = j") auto
      with srt a have "keyLe (rows st' ! j) (rows st' ! i)"
        by (simp add: sorted_wrt_iff_nth_less)
      with a ti tj show False by (auto simp: keyLe_def)
    qed
  }
qed

lemma load_outcome: "fst (load res st) = Loaded \<or> (\<exists>e. fst (load res st) = Failed e)"
  by (cases "fst (load res st)") auto

lemma set_mergeArrays: "set (mergeArrays cmp xs ys) = set xs \<union> set ys"
  by (induction cmp xs ys rule: mergeArrays.induct) auto

lemma mergeArrays_sorted:
  "keyed le cmp \<Longrightarrow> sorted_wrt le xs \<Longrightarrow> sorted_wrt le ys \<Longrightarrow>
     sorted_wrt le (mergeArrays cmp xs ys)"
proof (induction cmp xs ys rule: mergeArrays.induct)
  case (1 comparefn right)
  then show ?case by simp
next
  case (2 comparefn l left)
  then show ?case by simp
next
  case (3 comparefn l left r right)
  note k = \<open>keyed le comparefn\<close>
  from 3(4) have sl: "sorted_wrt le left" and al: "\<forall>z \<in> set left. le l z" by simp_all
  from 3(5) have sr: "sorted_wrt le right" and ar: "\<forall>z \<in> set right. le r z" by simp_all
  show ?case
  proof (cases "comparefn l r \<le> 0")
    case True
    with k have lr: "le l r" unfolding keyed_def by (metis not_less)
    have "\<forall>z \<in> set right. le l z"
    proof
      fix z assume "z \<in> set right"
      with ar have "le r z" by blast
      with lr k show "le l z" unfolding keyed_def by blast
    qed
    with al lr have all: "\<forall>z \<in> set (mergeArrays comparefn left (r # right)). le l z"
      by (auto simp: set_mergeArrays)
    from 3(1)[OF True k sl 3(5)] have "sorted_wrt le (mergeArrays comparefn left (r # right))" .
    with all True show ?thesis by simp
  next
    case False
    with k have rl: "le r l" unfolding keyed_def by (metis not_less)
    have "\<forall>z \<in> set left. le r z"
    proof
      fix z assume "z \<in> set left"
      with al have "le l z" by blast
      with rl k show "le r z" unfolding keyed_def by blast
    qed
    with ar rl have all: "\<forall>z \<in> set (mergeArrays comparefn (l # left) right). le r z"
      by (auto simp: set_mergeArrays)
    from 3(2)[OF False k 3(4) sr] have "sorted_wrt le (mergeArrays comparefn (l # left) right)" .
    with all False show ?thesis by simp
  qed
qed

lemma mergeSortArray_keySorted:
  "keyed le cmp \<Longrightarrow> sorted_wrt le (mergeSortArray cmp xs)"
proof (induction cmp xs rule: mergeSortArray.induct)
  case (1 comparefn a)
  show ?case
  proof (cases "length a \<le> 1")
    case True
    then have "mergeSortArray comparefn a = a" by (subst mergeSortArray.simps) simp
    moreover from True have "sorted_wrt le a" by (cases a) (auto simp: le_Suc_eq)
    ultimately show ?thesis by simp
  next
    case False
    then have "mergeSortArray comparefn a =
        mergeArrays comparefn (mergeSortArray comparefn (take (length a div 2) a))
          (mergeSortArray comparefn (drop (length a div 2) a))"
      by (subst mergeSortArray.simps) simp
    moreover from 1 False
    have "sorted_wrt le (mergeSortArray comparefn (take (length a div 2) a))"
      and "sorted_wrt le (mergeSortArray comparefn (drop (length a div 2) a))"
      by simp_all
    ultimately show ?thesis using 1(3) by (simp add: mergeArrays_sorted)
  qed
qed

lemma rows_keySorted_merge: "sorted_wrt keyLe (mergeSortArray compareRows xs)"
  by (rule mergeSortArray_keySorted[OF keyed_compareRows])

lemma headerTipoData_keys:
  "map keyifyHeader [js ''Tipo'', js ''Data''] = [js ''tipo'', js ''data'']"
  by (simp add: key_defs text_defs)

lemma headerTipoData_Date: "buildHeaderIndex [js ''Tipo'', js ''Data''] Date = Some 1"
  unfolding buildHeaderIndex_apply headerTipoData_keys keys_Date by (simp add: js_def)

lemma headerTipoData_Activity: "buildHeaderIndex [js ''Tipo'', js ''Data''] Activity = Some 0"
  unfolding buildHeaderIndex_apply headerTipoData_keys keys_Activity by (simp add: js_def)

lemma sheetTrips_parse:
  "parseCSV sheetTrips =
     [[js ''Tipo'', js ''Data''], [js ''Notte'', js ''5/3/2024''], [js ''Trip'', js ''5/3/2024''],
      [js ''Notte'', js ''1/3/2024''], [js ''Trip'', js ''5/3/2024'']]"
  by (simp add: csv_defs sheetTrips_def js_def trim_def isSpace_def Let_def)

lemma tripsCells:
  "getCell [a, d] (buildHeaderIndex [js ''Tipo'', js ''Data'']) Date = norm_text d"
  "getCell [a, d] (buildHeaderIndex [js ''Tipo'', js ''Data'']) Activity = norm_text a"
  unfolding getCell_def headerTipoData_Date headerTipoData_Activity by simp_all

lemma tripsTexts:
  "norm_text (js ''5/3/2024'') = js ''5/3/2024''"
  "norm_text (js ''1/3/2024'') = js ''1/3/2024''"
  "norm_text (js ''Trip'') = js ''Trip''"
  "norm_text (js ''Notte'') = js ''Notte''"
  "toISO (js ''1/3/2024'') = js ''2024-03-01''"
  "js ''Notte'' \<noteq> js ''Trip''"
  "js ''2024-03-05'' \<noteq> []"
  "js ''2024-03-01'' \<noteq> []"
  "js ''2024-03-01'' \<noteq> js ''2024-03-05''"
  by (simp_all add: text_defs date_defs)

lemma tripsCompare:
  "localeCompare (js ''2024-03-05'') (js ''2024-03-05'') = 0"
  "localeCompare (js ''2024-03-05'') (js ''2024-03-01'') = 1"
  "localeCompare (js ''2024-03-01'') (js ''2024-03-05'') = - 1"
  "js ''2024-03-01'' \<le> js ''2024-03-05''"
  by (simp_all add: js_def)

lemma sheetTrips_loaded: "fst (load (Response True (Some sheetTrips)) freshApp) = Loaded"
  by (rule load_success(1)[OF sheetTrips_parse])
     (unfold headerTipoData_keys keys_Date, simp add: js_def)

lemma sheetTrips_rows:
  "map (\<lambda>r. (f_dateISO r, f_activity r)) (rows (snd (load (Response True (Some sheetTrips)) freshApp))) =
     [(js ''2024-03-01'', js ''Notte''), (js ''2024-03-05'', js ''Trip''),
      (js ''2024-03-05'', js ''Trip''), (js ''2024-03-05'', js ''Notte'')]"
proof -
  have "rows (snd (load (Response True (Some sheetTrips)) freshApp)) =
      sortArray compareRows (filter (\<lambda>r. f_dateISO r \<noteq> [])
        (map (makeRecord (buildHeaderIndex [js ''Tipo'', js ''Data'']))
          [[js ''Notte'', js ''5/3/2024''], [js ''Trip'', js ''5/3/2024''],
           [js ''Notte'', js ''1/3/2024''], [js ''Trip'', js ''5/3/2024'']]))"
    by (rule load_success(2)[OF sheetTrips_parse])
       (unfold headerTipoData_keys keys_Date, simp add: js_def)
  then show ?thesis
    by (simp add: sortArray_def compareRows_def Let_def tripsCells tripsTexts tripsCompare
        toISO_examples)
qed

section \<open>Properties of the tokenizer\<close>

lemma in_quotes_segment:
  "inQuotes st \<Longrightarrow> rest = [] \<or> hd rest \<noteq> 34 \<Longrightarrow>
     parseLoop st (doubleQuotes s @ 34 # rest) =
     parseLoop (st\<lparr>cell := cell st @ s, inQuotes := False\<rparr>) rest"
proof (induction s arbitrary: st)
  case Nil
  then show ?case by (auto simp: doubleQuotes_def)
next
  case (Cons c cs)
  show ?case
  proof (cases "c = 34")
    case True
    have "parseLoop st (doubleQuotes (c # cs) @ 34 # rest) =
        parseLoop (st\<lparr>cell := cell st @ [34]\<rparr>) (doubleQuotes cs @ 34 # rest)"
      using True Cons.prems(1) by (simp add: doubleQuotes_def)
    also have "\<dots> = parseLoop (st\<lparr>cell := cell st @ [34]\<rparr>\<lparr>cell := cell (st\<lparr>cell := cell st @ [34]\<rparr>) @ cs, inQuotes := False\<rparr>) rest"
      using Cons.prems by (intro Cons.IH) simp_all
    finally show ?thesis using True by simp
  next
    case False
    have "parseLoop st (doubleQuotes (c # cs) @ 34 # rest) =
        parseLoop (st\<lparr>cell := cell st @ [c]\<rparr>) (doubleQuotes cs @ 34 # rest)"
      using False Cons.prems(1) by (simp add: doubleQuotes_def)
    also have "\<dots> = parseLoop (st\<lparr>cell := cell st @ [c]\<rparr>\<lparr>cell := cell (st\<lparr>cell := cell st @ [c]\<rparr>) @ cs, inQuotes := False\<rparr>) rest"
      using Cons.prems by (intro Cons.IH) simp_all
    finally show ?thesis by simp
  qed
qed

lemma close_quotes: "\<not> inQuotes st \<Longrightarrow> st\<lparr>cell := c, inQuotes := False\<rparr> = st\<lparr>cell := c\<rparr>"
  by (cases st) simp

lemma quoted_segment:
  assumes "\<not> inQuotes st" "rest = [] \<or> hd rest \<noteq> 34"
  shows "parseLoop st ([34] @ doubleQuotes s @ [34] @ rest) = parseLoop (st\<lparr>cell := cell st @ s\<rparr>) rest"
proof -
  have "parseLoop st ([34] @ doubleQuotes s @ [34] @ rest) =
      parseLoop (st\<lparr>inQuotes := True\<rparr>) (doubleQuotes s @ 34 # rest)"
    using assms(1) by simp
  also have "\<dots> = parseLoop (st\<lparr>inQuotes := True\<rparr>\<lparr>cell := cell (st\<lparr>inQuotes := True\<rparr>) @ s, inQuotes := False\<rparr>) rest"
    using assms(2) by (intro in_quotes_segment) simp_all
  finally show ?thesis using assms(1) by (simp add: close_quotes)
qed

lemma bare_segment:
  "\<not> inQuotes st \<Longrightarrow> list_all bareChar s \<Longrightarrow>
     parseLoop st (s @ rest) = parseLoop (st\<lparr>cell := cell st @ s\<rparr>) rest"
proof (induction s arbitrary: st)
  case Nil
  then show ?case by simp
next
  case (Cons c cs)
  then have "parseLoop st ((c # cs) @ rest) = parseLoop (st\<lparr>cell := cell st @ [c]\<rparr>) (cs @ rest)"
    by (simp add: bareChar_def)
  also have "\<dots> = parseLoop (st\<lparr>cell := cell st @ [c]\<rparr>\<lparr>cell := cell (st\<lparr>cell := cell st @ [c]\<rparr>) @ cs\<rparr>) rest"
    using Cons.prems by (intro Cons.IH) simp_all
  finally show ?case by simp
qed

lemma field_segment:
  assumes "\<not> inQuotes st" "wellFormedField f" "rest = [] \<or> hd rest \<noteq> 34"
  shows "parseLoop st (writeField f @ rest) = parseLoop (st\<lparr>cell := cell st @ content f\<rparr>) rest"
proof (cases f)
  case (Bare s)
  with assms show ?thesis by (simp add: bare_segment)
next
  case (Quoted s)
  with quoted_segment[OF assms(1,3), of s] show ?thesis by simp
qed

lemma fields_segment:
  assumes "fs \<noteq> []" "list_all wellFormedField fs"
  shows "parseLoop \<lparr>out = rs, row = r, cell = [], inQuotes = False\<rparr> (writeFields fs @ 10 # rest) =
     parseLoop (idle (if nonBlankRow (r @ map content fs) then rs @ [r @ map content fs] else rs)) rest"
  using assms
proof (induction fs arbitrary: r rule: writeFields.induct)
  case 1
  then show ?case by simp
next
  case (2 f)
  let ?st = "\<lparr>out = rs, row = r, cell = [], inQuotes = False\<rparr>"
  from 2 have "parseLoop ?st (writeField f @ 10 # rest) = parseLoop (?st\<lparr>cell := cell ?st @ content f\<rparr>) (10 # rest)"
    by (intro field_segment) simp_all
  then show ?case by (simp add: endRow_def idle_def)
next
  case (3 f g fs)
  let ?st = "\<lparr>out = rs, row = r, cell = [], inQuotes = False\<rparr>"
  from 3(3) have "parseLoop ?st (writeField f @ 44 # writeFields (g # fs) @ 10 # rest)
      = parseLoop (?st\<lparr>cell := cell ?st @ content f\<rparr>) (44 # writeFields (g # fs) @ 10 # rest)"
    by (intro field_segment) simp_all
  also have "\<dots> = parseLoop \<lparr>out = rs, row = r @ [content f], cell = [], inQuotes = False\<rparr>
      (writeFields (g # fs) @ 10 # rest)"
    by simp
  also have "\<dots> = parseLoop (idle (if nonBlankRow ((r @ [content f]) @ map content (g # fs))
      then rs @ [(r @ [content f]) @ map content (g # fs)] else rs)) rest"
    using 3(3) by (intro 3(1)) simp_all
  finally show ?case by simp
qed

lemma nonBlank_empty: "\<not> nonBlankRow []" "\<not> nonBlankRow [[]]"
  by (simp_all add: nonBlankRow_def trim_def)

lemma row_segment:
  assumes "list_all wellFormedField fs"
  shows "parseLoop (idle rs) (writeFields fs @ 10 # rest) =
     parseLoop (idle (rs @ filter nonBlankRow [map content fs])) rest"
proof (cases "fs = []")
  case True
  then show ?thesis by (simp add: idle_def endRow_def nonBlank_empty)
next
  case False
  from fields_segment[OF False assms, of rs "[]" rest] show ?thesis
    by (simp add: idle_def)
qed

lemma table_segment:
  "\<forall>r \<in> set t. list_all wellFormedField r \<Longrightarrow>
     parseLoop (idle rs) (writeTable t) = idle (rs @ filter nonBlankRow (map (map content) t))"
proof (induction t arbitrary: rs)
  case Nil
  then show ?case by (simp add: writeTable_def)
next
  case (Cons r t)
  have "parseLoop (idle rs) (writeTable (r # t)) = parseLoop (idle rs) (writeFields r @ 10 # writeTable t)"
    by (simp add: writeTable_def)
  also have "\<dots> = parseLoop (idle (rs @ filter nonBlankRow [map content r])) (writeTable t)"
    using Cons.prems by (intro row_segment) simp
  also have "\<dots> = idle ((rs @ filter nonBlankRow [map content r]) @ filter nonBlankRow (map (map content) t))"
    using Cons.prems by (intro Cons.IH) simp
  finally show ?case by simp
qed

lemma parseCSV_writeTable:
  "\<forall>r \<in> set t. list_all wellFormedField r \<Longrightarrow>
     parseCSV (writeTable t) = filter nonBlankRow (map (map content) t)"
  using table_segment[of t "[]"] by (simp add: parseCSV_def idle_def)

lemma single_quoted_field:
  assumes "trim s \<noteq> []"
  shows "parseCSV ([34] @ doubleQuotes s @ [34]) = [[s]]"
proof -
  let ?st = "\<lparr>out = [], row = [], cell = [], inQuotes = False\<rparr>"
  from assms have ne: "s \<noteq> []" by (auto simp: trim_def)
  have "parseLoop ?st ([34] @ doubleQuotes s @ [34] @ []) = parseLoop (?st\<lparr>cell := cell ?st @ s\<rparr>) []"
    by (intro quoted_segment) simp_all
  then have "parseLoop ?st ([34] @ doubleQuotes s @ [34]) = ?st\<lparr>cell := s\<rparr>" by simp
  with ne assms show ?thesis
    by (simp add: parseCSV_def endRow_def nonBlankRow_def)
qed

section \<open>Properties of the numeric parsing\<close>

lemmas num_defs = safeNum_def safeNum_spec_def Number_def unsignedDecimal_def digitsValue_def
  toDouble_def isFinite_def numericChar_def

lemma numeric_not_space: "numericChar c \<Longrightarrow> \<not> isSpace c"
  by (auto simp: numericChar_def isDigit_def isSpace_def)

lemma trim_numeric: "list_all numericChar s \<Longrightarrow> trim s = s"
proof (cases "s = []")
  case True
  then show ?thesis by simp
next
  case False
  assume "list_all numericChar s"
  with False have "numericChar (hd s)" "numericChar (last s)"
    by (auto simp: list_all_iff)
  then show ?thesis by (intro trim_id) (simp add: numeric_not_space)
qed

lemma safeNum_finite: "\<exists>r. safeNum v = Fin r"
  unfolding safeNum_def Let_def isFinite_def
  by (cases "Number (replaceFirstComma (filter numericChar (norm_text v)))") auto

lemma safeNum_strip: "safeNum v = safeNum (filter numericChar (norm_text v))"
proof -
  have "list_all numericChar (filter numericChar (norm_text v))" by (simp add: list_all_iff)
  then have "norm_text (filter numericChar (norm_text v)) = filter numericChar (norm_text v)"
    unfolding norm_text_def[of "filter numericChar (trim v)"] by (simp add: trim_numeric norm_text_def)
  then show ?thesis by (simp add: safeNum_def)
qed

lemma replaceFirstComma_digits:
  "list_all isDigit a \<Longrightarrow> replaceFirstComma (a @ 45 # b) = a @ 45 # replaceFirstComma b"
  by (induction a) (auto simp: isDigit_def)

lemma takeWhile_digits_minus: "list_all isDigit a \<Longrightarrow> takeWhile isDigit (a @ 45 # b) = a"
  by (induction a) (auto simp: isDigit_def)

lemma dropWhile_digits_minus: "list_all isDigit a \<Longrightarrow> dropWhile isDigit (a @ 45 # b) = 45 # b"
  by (induction a) (auto simp: isDigit_def)

lemma inner_minus_NaN:
  assumes "list_all isDigit a" "a \<noteq> []"
  shows "Number (a @ 45 # b) = NaN"
proof -
  from assms have "hd (a @ 45 # b) \<noteq> 45" by (cases a) (auto simp: isDigit_def)
  moreover have "unsignedDecimal (a @ 45 # b) = None"
    using assms by (simp add: unsignedDecimal_def takeWhile_digits_minus dropWhile_digits_minus)
  ultimately show ?thesis by (simp add: Number_def)
qed

lemma safeNum_inner_minus:
  assumes "list_all isDigit a" "a \<noteq> []" "list_all numericChar b"
  shows "safeNum (a @ js ''-'' @ b) = Fin 0"
proof -
  from assms have n: "list_all numericChar (a @ 45 # b)"
    by (auto simp: list_all_iff numericChar_def)
  then have "filter numericChar (norm_text (a @ 45 # b)) = a @ 45 # b"
    by (simp add: norm_text_def trim_numeric list_all_iff)
  with assms show ?thesis
    by (simp add: safeNum_def replaceFirstComma_digits inner_minus_NaN isFinite_def)
qed

lemma replaceFirstComma_at:
  "list_all isDigit a \<Longrightarrow> replaceFirstComma (a @ 44 # b) = a @ 46 # b"
  by (induction a) (auto simp: isDigit_def)

lemma replaceFirstComma_none: "44 \<notin> set s \<Longrightarrow> replaceFirstComma s = s"
  by (induction s) auto

lemma safeNum_comma:
  assumes "list_all isDigit a" "list_all isDigit b"
  shows "safeNum (a @ js '','' @ b) = safeNum (a @ js ''.'' @ b)"
proof -
  have c: "js '','' = [44]" and p: "js ''.'' = [46]" by (simp_all add: js_def)
  from assms have n1: "list_all numericChar (a @ 44 # b)" and n2: "list_all numericChar (a @ 46 # b)"
    by (auto simp: list_all_iff numericChar_def)
  from n1 have f1: "filter numericChar (norm_text (a @ 44 # b)) = a @ 44 # b"
    by (simp add: norm_text_def trim_numeric list_all_iff)
  from n2 have f2: "filter numericChar (norm_text (a @ 46 # b)) = a @ 46 # b"
    by (simp add: norm_text_def trim_numeric list_all_iff)
  from assms have "44 \<notin> set (a @ 46 # b)" by (auto simp: list_all_iff isDigit_def)
  then have "replaceFirstComma (a @ 46 # b) = a @ 46 # b" by (rule replaceFirstComma_none)
  with assms(1) f1 f2 show ?thesis
    by (simp add: safeNum_def c p replaceFirstComma_at)
qed

lemma safeNum_examples:
  "safeNum (js ''120 km'') = Fin 120"
  "safeNum (js ''abc'') = Fin 0"
  "safeNum (js ''1,5'') = Fin (3 / 2)"
  "safeNum (js ''-5'') = Fin (- 5)"
  "safeNum (js ''1-2'') = Fin 0"
  by (simp_all add: num_defs text_defs)

section \<open>Properties of the resolver\<close>

lemma outbound_append: "outbound (es @ fs) = outbound es @ outbound fs"
  by (induction es rule: outbound.induct) auto

lemma geocode_rejected:
  assumes "misses (norm_text query) w" "fetched env = GeoRejected"
  shows "geocodeNominatim env query w =
     (Threw, w\<lparr>clock := startTime env w + int (fetchTime env),
               events := events w @ [RequestIssued (startTime env w) (norm_text query),
                                     RequestFailed (startTime env w + int (fetchTime env))]\<rparr>)"
  using assms
  by (simp add: geocodeNominatim_def misses_def startTime_def Let_def)

lemma geocode_response:
  assumes "misses (norm_text query) w" "fetched env = GeoResponse ok body"
  shows "events (snd (geocodeNominatim env query w)) =
      events w @ [RequestIssued (startTime env w) (norm_text query),
                  ResponseArrived (startTime env w + int (fetchTime env)),
                  TimestampSet (startTime env w + int (fetchTime env))]"
    and "lastGeocodeAt (snd (geocodeNominatim env query w)) = startTime env w + int (fetchTime env)"
    and "clock (snd (geocodeNominatim env query w)) = startTime env w + int (fetchTime env)"
  using assms
  by (auto simp add: geocodeNominatim_def misses_def startTime_def Let_def saveGeocodeCache_def
      max_def split: geoBody.splits)

lemma geocode_response_storage:
  assumes "misses (norm_text query) w" "fetched env = GeoResponse ok body"
  shows "storage (snd (geocodeNominatim env query w)) =
     (if stored env then Cache ((loadGeocodeCache w)(norm_text query \<mapsto> hitOf (hd (case body of Json d \<Rightarrow> d | BadJson \<Rightarrow> []))))
      else storage w)"
  using assms
  by (simp add: geocodeNominatim_def misses_def Let_def saveGeocodeCache_def stored_def hitOf_def
      split: geoBody.splits)

lemma geocode_response_result:
  assumes "misses (norm_text query) w" "fetched env = GeoResponse ok body"
  shows "fst (geocodeNominatim env query w) =
     (case body of
        BadJson \<Rightarrow> if ok then Threw else Returned Null
      | Json data \<Rightarrow>
          if ok \<and> data \<noteq> [] \<and> isFinite (c_lat (hd data)) \<and> isFinite (c_lon (hd data))
          then Returned (Coordinates (hitOf (hd data))) else Returned Null)"
  using assms
  by (simp add: geocodeNominatim_def misses_def Let_def saveGeocodeCache_def hitOf_def
      split: geoBody.splits)

lemma geocode_hit:
  assumes "norm_text query \<noteq> []" "cacheGet (loadGeocodeCache w) (norm_text query) = Own h"
  shows "geocodeNominatim env query w = (Returned (Coordinates h), w)"
  using assms by (simp add: geocodeNominatim_def Let_def)

lemma startTime_ge: "clock w \<le> startTime env w"
  by (simp add: startTime_def Let_def max_def)

lemma startTime_spacing: "lastGeocodeAt w + 1100 \<le> startTime env w"
  by (simp add: startTime_def Let_def max_def)

lemma later_simps [simp]:
  "clock (later gap w) = clock w + int gap"
  "lastGeocodeAt (later gap w) = lastGeocodeAt w"
  "storage (later gap w) = storage w"
  "events (later gap w) = events w"
  "loadGeocodeCache (later gap w) = loadGeocodeCache w"
  by (simp_all add: later_def loadGeocodeCache_def)

lemma cacheGet_other: "q' \<noteq> q \<Longrightarrow> cacheGet (m(q \<mapsto> h)) q' = cacheGet m q'"
  by (simp add: cacheGet_def)

lemma cacheGet_same: "cacheGet (m(q \<mapsto> h)) q = Own h"
  by (simp add: cacheGet_def)

lemma misses_after_response:
  assumes "misses (norm_text query) w" "fetched env = GeoResponse ok body"
    and "misses q' w" "q' \<noteq> norm_text query"
  shows "misses q' (later gap (snd (geocodeNominatim env query w)))"
proof -
  have "cacheGet (loadGeocodeCache (snd (geocodeNominatim env query w))) q' = Missing"
    using assms(3,4) geocode_response_storage[OF assms(1,2)]
    by (auto simp: loadGeocodeCache_def misses_def cacheGet_other split: if_splits)
  with assms(3) show ?thesis by (simp add: misses_def)
qed

lemma misses_after_failure:
  assumes "misses (norm_text query) w" "fetched env = GeoResponse ok body" "\<not> stored env"
  shows "misses (norm_text query) (later gap (snd (geocodeNominatim env query w)))"
  using assms geocode_response_storage[OF assms(1,2)]
  by (simp add: misses_def loadGeocodeCache_def)

lemma geocode_outbound:
  assumes "misses (norm_text query) w"
  shows "outbound (events (snd (geocodeNominatim env query w))) =
     outbound (events w) @ [(startTime env w, norm_text query)]"
proof (cases "fetched env")
  case GeoRejected
  from geocode_rejected[OF assms this] show ?thesis by (simp add: outbound_append)
next
  case (GeoResponse ok body)
  from geocode_response(1)[OF assms this] show ?thesis by (simp add: outbound_append)
qed

lemma spacing_after_response:
  assumes "misses (norm_text query) w" "fetched env = GeoResponse ok body"
  shows "startTime env w + 1100 \<le> startTime env' (later gap (snd (geocodeNominatim env query w)))"
proof -
  let ?w' = "later gap (snd (geocodeNominatim env query w))"
  have "lastGeocodeAt ?w' = startTime env w + int (fetchTime env)"
    using geocode_response(2)[OF assms] by simp
  with startTime_spacing[of ?w' env'] show ?thesis by simp
qed

lemma roma_misses: "misses (norm_text (js ''Roma'')) world0"
  by (simp add: misses_def world0_def loadGeocodeCache_def cacheGet_def inheritedKeys_def text_defs)

lemma milano_misses: "misses (norm_text (js ''Milano'')) world0"
  by (simp add: misses_def world0_def loadGeocodeCache_def cacheGet_def inheritedKeys_def text_defs)

lemma start_world0: "startTime env world0 = 1700000000000"
  by (simp add: startTime_def world0_def)

lemmas geo_eval = geocodeNominatim_def Let_def world0_def envFound_def envRejected_def
  envUnwritable_def envNoMatch_def romaCandidate_def later_def loadGeocodeCache_def cacheGet_def
  inheritedKeys_def saveGeocodeCache_def isFinite_def hitOf_def

section \<open>The claims\<close>

text \<open>
  C7. Date text of the shape day/month/year (one or two digits, one or two digits, four
  digits, separated by slashes, blanks around it ignored) is turned into the year, the
  month and the day, the last two padded with a zero to two digits; every other text gives
  the empty text. \<^verbatim>\<open>5/3/2024\<close> gives \<^verbatim>\<open>2024-03-05\<close> and \<^verbatim>\<open>2024-03-05\<close> gives the empty
  text. After a load, every record of the working set has a date text of that shape, and
  the record of a row whose date text gives the empty text is not in the working set.
\<close>

theorem date_shape_normalised:
  "(dmyShape d m y \<and> norm_text v = dmyText d m y \<longrightarrow> toISO v = isoText d m y) \<and>
   (toISO v \<noteq> [] \<longleftrightarrow> (\<exists>d m y. dmyShape d m y \<and> norm_text v = dmyText d m y)) \<and>
   toISO (js ''5/3/2024'') = js ''2024-03-05'' \<and>
   toISO (js ''2024-03-05'') = [] \<and>
   (load res st = (Loaded, st') \<longrightarrow>
      (\<forall>r \<in> set (rows st'). \<exists>d m y. dmyShape d m y \<and> f_date r = dmyText d m y \<and>
          f_dateISO r = isoText d m y)) \<and>
   (load res st = (Loaded, st') \<and> toISO (getCell raw idx Date) = [] \<longrightarrow>
      makeRecord idx raw \<notin> set (rows st'))"
proof (intro conjI impI ballI)
  assume "dmyShape d m y \<and> norm_text v = dmyText d m y"
  then show "toISO v = isoText d m y" by (simp add: toISO_shape)
next
  show "toISO v \<noteq> [] \<longleftrightarrow> (\<exists>d m y. dmyShape d m y \<and> norm_text v = dmyText d m y)"
    by (rule toISO_nonempty)
next
  show "toISO (js ''5/3/2024'') = js ''2024-03-05''" by (rule toISO_examples)
next
  show "toISO (js ''2024-03-05'') = []" by (rule toISO_examples)
next
  fix r assume l: "load res st = (Loaded, st')" and r: "r \<in> set (rows st')"
  from working_set_member[OF l r] obtain d m y where
    s: "dmyShape d m y" "norm_text (f_date r) = dmyText d m y"
    and n: "norm_text (f_date r) = f_date r" and i: "f_dateISO r = toISO (f_date r)"
    using toISO_nonempty by blast
  from s have "toISO (f_date r) = isoText d m y" by (rule toISO_shape)
  with s n i show "\<exists>d m y. dmyShape d m y \<and> f_date r = dmyText d m y \<and> f_dateISO r = isoText d m y"
    by auto
next
  assume a: "load res st = (Loaded, st') \<and> toISO (getCell raw idx Date) = []"
  show "makeRecord idx raw \<notin> set (rows st')"
  proof
    assume "makeRecord idx raw \<in> set (rows st')"
    with a have "toISO (f_date (makeRecord idx raw)) \<noteq> []"
      using working_set_member by blast
    with a show False by simp
  qed
qed

theorem date_shape_normalised_witness:
  "dmyShape (js ''5'') (js ''3'') (js ''2024'') \<and>
   norm_text (js '' 5/3/2024 '') = dmyText (js ''5'') (js ''3'') (js ''2024'') \<and>
   toISO (js '' 5/3/2024 '') = js ''2024-03-05'' \<and>
   load (Response True (Some sheetDates)) freshApp =
     (Loaded, snd (load (Response True (Some sheetDates)) freshApp)) \<and>
   map f_date (rows (snd (load (Response True (Some sheetDates)) freshApp))) = [js ''5/3/2024''] \<and>
   map f_dateISO (rows (snd (load (Response True (Some sheetDates)) freshApp))) = [js ''2024-03-05''] \<and>
   toISO (getCell [js ''2024-03-05'', js ''Notte''] (buildHeaderIndex [js ''Data'', js ''Tipo'']) Date) = [] \<and>
   makeRecord (buildHeaderIndex [js ''Data'', js ''Tipo'']) [js ''2024-03-05'', js ''Notte'']
     \<notin> set (rows (snd (load (Response True (Some sheetDates)) freshApp)))"
proof -
  let ?st' = "snd (load (Response True (Some sheetDates)) freshApp)"
  let ?idx = "buildHeaderIndex [js ''Data'', js ''Tipo'']"
  let ?raw = "[js ''2024-03-05'', js ''Notte'']"
  have a: "dmyShape (js ''5'') (js ''3'') (js ''2024'')" by (simp add: date_defs text_defs)
  have b: "norm_text (js '' 5/3/2024 '') = dmyText (js ''5'') (js ''3'') (js ''2024'')"
    by (simp add: date_defs text_defs)
  have c: "isoText (js ''5'') (js ''3'') (js ''2024'') = js ''2024-03-05''"
    by (simp add: date_defs text_defs)
  have l: "load (Response True (Some sheetDates)) freshApp = (Loaded, ?st')"
    using sheetDates_loaded by (metis prod.collapse)
  have e: "map f_date (rows ?st') = [js ''5/3/2024'']"
    unfolding sheetDates_rows by (simp, unfold getCell_def headerDataTipo_Date, simp add: text_defs)
  have x: "toISO (getCell ?raw ?idx Date) = []"
    unfolding getCell_def headerDataTipo_Date by (simp add: text_defs date_defs)
  note t = date_shape_normalised[of "js ''5''" "js ''3''" "js ''2024''" "js '' 5/3/2024 ''"
      "Response True (Some sheetDates)" freshApp ?st' ?raw ?idx]
  from t a b c have f: "toISO (js '' 5/3/2024 '') = js ''2024-03-05''" by simp
  from t l x have ex: "makeRecord ?idx ?raw \<notin> set (rows ?st')" by blast
  have g: "map f_dateISO (rows ?st') = [js ''2024-03-05'']"
    unfolding sheetDates_rows
    by (simp, unfold getCell_def headerDataTipo_Date, simp add: text_defs date_defs)
  from a b f l e g x ex show ?thesis by blast
qed

text \<open>
  C10. Date normalisation does not check the calendar: any digits of the shape are
  accepted, \<^verbatim>\<open>99/99/2024\<close> gives \<^verbatim>\<open>2024-99-99\<close>, and a row with such a date is in the
  working set after the load.
\<close>

theorem no_calendar_validation:
  "toISO (js ''99/99/2024'') = js ''2024-99-99'' \<and>
   (dmyShape d m y \<longrightarrow> toISO (dmyText d m y) = isoText d m y \<and> isoText d m y \<noteq> []) \<and>
   (load (Response True (Some csv)) st = (Loaded, st') \<and> raw \<in> set (tl (parseCSV csv)) \<and>
    dmyShape d m y \<and> getCell raw (buildHeaderIndex (hd (parseCSV csv))) Date = dmyText d m y \<longrightarrow>
      (\<exists>r \<in> set (rows st'). r = makeRecord (buildHeaderIndex (hd (parseCSV csv))) raw \<and>
          f_dateISO r = isoText d m y))"
proof (intro conjI impI)
  show "toISO (js ''99/99/2024'') = js ''2024-99-99''" by (rule toISO_examples)
next
  assume s: "dmyShape d m y"
  then show "toISO (dmyText d m y) = isoText d m y"
    by (simp add: toISO_shape norm_dmyText)
  from s have "y \<noteq> []" by (auto simp: dmyShape_def)
  then show "isoText d m y \<noteq> []" by (simp add: isoText_def)
next
  let ?idx = "buildHeaderIndex (hd (parseCSV csv))"
  assume a: "load (Response True (Some csv)) st = (Loaded, st') \<and> raw \<in> set (tl (parseCSV csv)) \<and>
    dmyShape d m y \<and> getCell raw ?idx Date = dmyText d m y"
  then have iso: "toISO (getCell raw ?idx Date) = isoText d m y"
    by (simp add: toISO_shape norm_dmyText)
  moreover from a have "y \<noteq> []" by (auto simp: dmyShape_def)
  ultimately have ne: "toISO (getCell raw ?idx Date) \<noteq> []" by (simp add: isoText_def)
  from a have l: "load (Response True (Some csv)) st = (Loaded, st')"
    and r: "raw \<in> set (tl (parseCSV csv))" by simp_all
  from working_set_retains[OF l r ne] have "makeRecord ?idx raw \<in> set (rows st')" .
  with iso show "\<exists>r \<in> set (rows st'). r = makeRecord ?idx raw \<and> f_dateISO r = isoText d m y"
    by simp
qed

theorem no_calendar_validation_witness:
  "dmyShape (js ''99'') (js ''99'') (js ''2024'') \<and>
   toISO (dmyText (js ''99'') (js ''99'') (js ''2024'')) = js ''2024-99-99'' \<and>
   load (Response True (Some sheetOutOfRange)) freshApp =
     (Loaded, snd (load (Response True (Some sheetOutOfRange)) freshApp)) \<and>
   tl (parseCSV sheetOutOfRange) = [[js ''99/99/2024'', js ''Notte'']] \<and>
   map f_dateISO (rows (snd (load (Response True (Some sheetOutOfRange)) freshApp))) = [js ''2024-99-99'']"
proof -
  let ?st' = "snd (load (Response True (Some sheetOutOfRange)) freshApp)"
  let ?raw = "[js ''99/99/2024'', js ''Notte'']"
  have a: "dmyShape (js ''99'') (js ''99'') (js ''2024'')" by (simp add: date_defs text_defs)
  have c: "isoText (js ''99'') (js ''99'') (js ''2024'') = js ''2024-99-99''"
    by (simp add: date_defs text_defs)
  have l: "load (Response True (Some sheetOutOfRange)) freshApp = (Loaded, ?st')"
    using sheetOutOfRange_loaded by (metis prod.collapse)
  have p: "tl (parseCSV sheetOutOfRange) = [?raw]" by (simp add: sheetOutOfRange_parse)
  have h: "hd (parseCSV sheetOutOfRange) = [js ''Data'', js ''Tipo'']"
    by (simp add: sheetOutOfRange_parse)
  have g: "getCell ?raw (buildHeaderIndex (hd (parseCSV sheetOutOfRange))) Date
      = dmyText (js ''99'') (js ''99'') (js ''2024'')"
    unfolding h sheetOutOfRange_cell by (simp add: date_defs text_defs)
  note t = no_calendar_validation[of "js ''99''" "js ''99''" "js ''2024''" sheetOutOfRange freshApp ?st' ?raw]
  from t a c have 1: "toISO (dmyText (js ''99'') (js ''99'') (js ''2024'')) = js ''2024-99-99''" by simp
  have rin: "?raw \<in> set (tl (parseCSV sheetOutOfRange))" by (simp add: p)
  from t l rin a g have "\<exists>r \<in> set (rows ?st'). r = makeRecord (buildHeaderIndex (hd (parseCSV sheetOutOfRange))) ?raw \<and>
      f_dateISO r = isoText (js ''99'') (js ''99'') (js ''2024'')" by blast
  then obtain r where "r \<in> set (rows ?st')"
    and "f_dateISO r = isoText (js ''99'') (js ''99'') (js ''2024'')" by blast
  then have ex: "\<exists>r \<in> set (rows ?st'). f_dateISO r = js ''2024-99-99''"
    unfolding c by blast
  have 2: "map f_dateISO (rows ?st') = [js ''2024-99-99'']"
    using ex unfolding sheetOutOfRange_rows by simp
  from a 1 l p 2 show ?thesis by blast
qed

text \<open>
  C3. For every header row and every canonical field, the resolver gives the position of
  the leftmost column whose normalised text is one of the field's normalised aliases, and
  -1 when there is none. No text is a normalised alias of two fields, so no column can be
  matched by two fields, and two fields never resolve to the same column.
\<close>

theorem header_resolution:
  "(\<exists>i. buildHeaderIndex headerRow c = Some i \<and> leftmostMatch c headerRow i) \<and>
   (\<forall>c' k. c' \<noteq> c \<and> k \<in> set (normalizedAliases c) \<longrightarrow> k \<notin> set (normalizedAliases c')) \<and>
   (\<forall>c' i. c' \<noteq> c \<and> 0 \<le> i \<and> buildHeaderIndex headerRow c = Some i \<longrightarrow>
      buildHeaderIndex headerRow c' \<noteq> Some i)"
proof (intro conjI allI impI)
  let ?P = "\<lambda>headerKey. headerKey \<in> set (normalizedAliases c)"
  let ?keys = "map keyifyHeader headerRow"
  let ?i = "findIndex ?P ?keys"
  have "leftmostMatch c headerRow ?i"
  proof (cases "?i < 0")
    case True
    from findIndex_absent[OF True] show ?thesis
      by (auto simp: leftmostMatch_def)
  next
    case False
    then have nn: "0 \<le> ?i" by simp
    from findIndex_found[OF nn] nn show ?thesis
      by (auto simp: leftmostMatch_def)
  qed
  then show "\<exists>i. buildHeaderIndex headerRow c = Some i \<and> leftmostMatch c headerRow i"
    by (simp add: buildHeaderIndex_apply)
next
  fix c' k
  assume "c' \<noteq> c \<and> k \<in> set (normalizedAliases c)"
  then show "k \<notin> set (normalizedAliases c')"
    using aliases_disjoint[of c c' k] by blast
next
  fix c' i
  assume a: "c' \<noteq> c \<and> 0 \<le> i \<and> buildHeaderIndex headerRow c = Some i"
  define keys where "keys = map keyifyHeader headerRow"
  from a have i: "i = findIndex (\<lambda>k. k \<in> set (normalizedAliases c)) keys"
    by (simp add: buildHeaderIndex_apply keys_def)
  from a have nn: "0 \<le> i" by simp
  from findIndex_found[of "\<lambda>k. k \<in> set (normalizedAliases c)" keys] nn
  have m: "keys ! nat i \<in> set (normalizedAliases c)"
    unfolding i by blast
  show "buildHeaderIndex headerRow c' \<noteq> Some i"
  proof
    assume "buildHeaderIndex headerRow c' = Some i"
    then have i': "i = findIndex (\<lambda>k. k \<in> set (normalizedAliases c')) keys"
      by (simp add: buildHeaderIndex_apply keys_def)
    from findIndex_found[of "\<lambda>k. k \<in> set (normalizedAliases c')" keys] nn
    have "keys ! nat i \<in> set (normalizedAliases c')"
      unfolding i' by blast
    with m a show False using aliases_disjoint[of c c' "keys ! nat i"] by blast
  qed
qed

theorem header_resolution_witness:
  "buildHeaderIndex headerExample Date = Some 1 \<and> leftmostMatch Date headerExample 1 \<and>
   Activity \<noteq> Date \<and> (0::int) \<le> 1 \<and> js ''data'' \<in> set (normalizedAliases Date) \<and>
   js ''data'' \<notin> set (normalizedAliases Activity) \<and>
   buildHeaderIndex headerExample Activity = Some 0 \<and>
   buildHeaderIndex headerExample Activity \<noteq> Some 1 \<and>
   buildHeaderIndex headerExample Cost = Some (- 1)"
proof -
  have d: "buildHeaderIndex headerExample Date = Some 1"
    by (simp add: buildHeaderIndex_apply headerExample_keys keys_Date js_def)
  have a: "buildHeaderIndex headerExample Activity = Some 0"
    by (simp add: buildHeaderIndex_apply headerExample_keys keys_Activity js_def)
  have c: "buildHeaderIndex headerExample Cost = Some (- 1)"
    by (simp add: buildHeaderIndex_apply headerExample_keys keys_Cost js_def)
  have k: "js ''data'' \<in> set (normalizedAliases Date)" by (simp add: keys_Date)
  note t = header_resolution[of headerExample Date]
  from t d have l: "leftmostMatch Date headerExample 1" by auto
  from t k have k': "js ''data'' \<notin> set (normalizedAliases Activity)" by blast
  from t d have n: "buildHeaderIndex headerExample Activity \<noteq> Some 1" by auto
  from d l a n c k k' show ?thesis by simp
qed

text \<open>
  C6. A load that fails leaves the record set as it was: only the status text is written
  before the failure. The load fails when the request is rejected, when the response is
  not a success, when its body cannot be read, when the text has no row that is not
  blank, and when no column of the header is a date column.
\<close>
theorem failed_load_keeps_rows:
  "(fst (load res st) = Failed e \<longrightarrow> rows (snd (load res st)) = rows st) \<and>
   fst (load FetchRejected st) = Failed TransportError \<and>
   fst (load (Response False body) st) = Failed CsvNotLoaded \<and>
   fst (load (Response True None) st) = Failed TransportError \<and>
   (parseCSV csv = [] \<longrightarrow> fst (load (Response True (Some csv)) st) = Failed CsvEmpty) \<and>
   (parseCSV csv \<noteq> [] \<and>
    (\<forall>k < length (hd (parseCSV csv)).
        keyifyHeader (hd (parseCSV csv) ! k) \<notin> set (normalizedAliases Date)) \<longrightarrow>
      fst (load (Response True (Some csv)) st) = Failed NoDateColumn)"
proof (intro conjI impI)
  assume "fst (load res st) = Failed e"
  then have "snd (load res st) = loading st" by (rule load_failed_state)
  then show "rows (snd (load res st)) = rows st" by (simp add: loading_def)
next
  show "fst (load FetchRejected st) = Failed TransportError" by (simp add: load_rejected)
next
  show "fst (load (Response False body) st) = Failed CsvNotLoaded" by (simp add: load_not_ok)
next
  show "fst (load (Response True None) st) = Failed TransportError" by (simp add: load_no_body)
next
  assume "parseCSV csv = []"
  then show "fst (load (Response True (Some csv)) st) = Failed CsvEmpty" by (simp add: load_empty)
next
  assume "parseCSV csv \<noteq> [] \<and>
    (\<forall>k < length (hd (parseCSV csv)).
        keyifyHeader (hd (parseCSV csv) ! k) \<notin> set (normalizedAliases Date))"
  then show "fst (load (Response True (Some csv)) st) = Failed NoDateColumn"
    by (simp add: load_no_date dateColumnMissing_iff)
qed

theorem failed_load_keeps_rows_witness:
  "fst (load FetchRejected (snd (load (Response True (Some sheetDates)) freshApp))) = Failed TransportError \<and>
   rows (snd (load FetchRejected (snd (load (Response True (Some sheetDates)) freshApp)))) =
     rows (snd (load (Response True (Some sheetDates)) freshApp)) \<and>
   length (rows (snd (load (Response True (Some sheetDates)) freshApp))) = 1 \<and>
   parseCSV [] = [] \<and>
   fst (load (Response True (Some [])) freshApp) = Failed CsvEmpty \<and>
   parseCSV sheetNoDate \<noteq> [] \<and>
   fst (load (Response True (Some sheetNoDate)) freshApp) = Failed NoDateColumn"
proof -
  let ?st = "snd (load (Response True (Some sheetDates)) freshApp)"
  note t1 = failed_load_keeps_rows[of FetchRejected ?st TransportError None "[]"]
  note t2 = failed_load_keeps_rows[of FetchRejected freshApp TransportError None "[]"]
  note t3 = failed_load_keeps_rows[of FetchRejected freshApp TransportError None sheetNoDate]
  from t1 have a: "fst (load FetchRejected ?st) = Failed TransportError" by blast
  with t1 have b: "rows (snd (load FetchRejected ?st)) = rows ?st" by blast
  have c: "length (rows ?st) = 1" by (simp add: sheetDates_rows)
  from t2 parseCSV_Nil have d: "fst (load (Response True (Some [])) freshApp) = Failed CsvEmpty" by blast
  have ne: "parseCSV sheetNoDate \<noteq> []" by (simp add: sheetNoDate_parse)
  from t3 ne sheetNoDate_header
  have e: "fst (load (Response True (Some sheetNoDate)) freshApp) = Failed NoDateColumn" by blast
  from a b c d e ne parseCSV_Nil show ?thesis by blast
qed

text \<open>
  C2. After every load the working set is in ascending order of the ISO date, and of two
  records of the same date, one of kind Trip and one of another kind, the trip comes
  first: the working set is so ordered before the first load, a load that succeeds
  leaves it so ordered, and a load that fails leaves it as it was.
\<close>

theorem working_set_sorted:
  "ordered (rows freshApp) \<and>
   (fst (load res st) = Loaded \<longrightarrow> ordered (rows (snd (load res st)))) \<and>
   (ordered (rows st) \<longrightarrow> ordered (rows (snd (load res st))))"
proof (intro conjI impI)
  show "ordered (rows freshApp)" by (simp add: ordered_def freshApp_def)
next
  assume "fst (load res st) = Loaded"
  then have "load res st = (Loaded, snd (load res st))" by (metis prod.collapse)
  then show "ordered (rows (snd (load res st)))" by (rule loaded_ordered)
next
  assume o: "ordered (rows st)"
  from load_outcome[of res st] show "ordered (rows (snd (load res st)))"
  proof
    assume "fst (load res st) = Loaded"
    then have "load res st = (Loaded, snd (load res st))" by (metis prod.collapse)
    then show ?thesis by (rule loaded_ordered)
  next
    assume "\<exists>e. fst (load res st) = Failed e"
    then obtain e where "fst (load res st) = Failed e" by blast
    then have "snd (load res st) = loading st" by (rule load_failed_state)
    with o show ?thesis by (simp add: loading_def)
  qed
qed

theorem working_set_sorted_witness:
  "fst (load (Response True (Some sheetTrips)) freshApp) = Loaded \<and>
   map (\<lambda>r. (f_dateISO r, f_activity r)) (rows (snd (load (Response True (Some sheetTrips)) freshApp))) =
     [(js ''2024-03-01'', js ''Notte''), (js ''2024-03-05'', js ''Trip''),
      (js ''2024-03-05'', js ''Trip''), (js ''2024-03-05'', js ''Notte'')] \<and>
   ordered (rows (snd (load (Response True (Some sheetTrips)) freshApp))) \<and>
   fst (load FetchRejected (snd (load (Response True (Some sheetTrips)) freshApp))) = Failed TransportError \<and>
   ordered (rows (snd (load FetchRejected (snd (load (Response True (Some sheetTrips)) freshApp))))) \<and>
   f_dateISO (rows (snd (load (Response True (Some sheetTrips)) freshApp)) ! 0)
     \<le> f_dateISO (rows (snd (load (Response True (Some sheetTrips)) freshApp)) ! 1) \<and>
   f_dateISO (rows (snd (load (Response True (Some sheetTrips)) freshApp)) ! 2)
     = f_dateISO (rows (snd (load (Response True (Some sheetTrips)) freshApp)) ! 3) \<and>
   f_activity (rows (snd (load (Response True (Some sheetTrips)) freshApp)) ! 2) = js ''Trip'' \<and>
   f_activity (rows (snd (load (Response True (Some sheetTrips)) freshApp)) ! 3) \<noteq> js ''Trip''"
proof -
  let ?st' = "snd (load (Response True (Some sheetTrips)) freshApp)"
  let ?p = "\<lambda>r. (f_dateISO r, f_activity r)"
  have n: "length (rows ?st') = 4"
    using arg_cong[OF sheetTrips_rows, of length] by simp
  have "?p (rows ?st' ! 2) = map ?p (rows ?st') ! 2" using n by simp
  then have r2: "?p (rows ?st' ! 2) = (js ''2024-03-05'', js ''Trip'')"
    unfolding sheetTrips_rows by simp
  have "?p (rows ?st' ! 3) = map ?p (rows ?st') ! 3" using n by simp
  then have r3: "?p (rows ?st' ! 3) = (js ''2024-03-05'', js ''Notte'')"
    unfolding sheetTrips_rows by simp
  from r2 r3 have h: "f_dateISO (rows ?st' ! 2) = f_dateISO (rows ?st' ! 3) \<and>
      f_activity (rows ?st' ! 2) = js ''Trip'' \<and> f_activity (rows ?st' ! 3) \<noteq> js ''Trip''"
    by (simp add: tripsTexts)
  from working_set_sorted[of "Response True (Some sheetTrips)" freshApp] sheetTrips_loaded
  have o: "ordered (rows ?st')" by blast
  from working_set_sorted[of FetchRejected ?st'] o
  have o': "ordered (rows (snd (load FetchRejected ?st')))" by blast
  have f: "fst (load FetchRejected ?st') = Failed TransportError" by (simp add: load_rejected)
  from o n have d: "f_dateISO (rows ?st' ! 0) \<le> f_dateISO (rows ?st' ! 1)"
    by (simp add: ordered_def)
  from sheetTrips_loaded sheetTrips_rows o f o' d h show ?thesis by blast
qed

text \<open>
  C9. A field enclosed in double quotes, with each quote of its content doubled, is read
  as literal content of one field: wherever the tokenizer meets it outside quotes (and
  no quote follows it) the content is added to the current field as it is, commas and
  line breaks and single quotes included, and no field or row ends inside it. A text
  that is such a field alone gives one row of that one field, and a table written with
  quoted and bare fields is read back field by field (rows of blank fields dropped).
\<close>

theorem quoted_fields_literal:
  "(\<not> inQuotes st \<and> (rest = [] \<or> hd rest \<noteq> 34) \<longrightarrow>
      parseLoop st ([34] @ doubleQuotes s @ [34] @ rest) = parseLoop (st\<lparr>cell := cell st @ s\<rparr>) rest) \<and>
   (trim s \<noteq> [] \<longrightarrow> parseCSV ([34] @ doubleQuotes s @ [34]) = [[s]]) \<and>
   ((\<forall>r \<in> set t. list_all wellFormedField r) \<longrightarrow>
      parseCSV (writeTable t) = filter nonBlankRow (map (map content) t)) \<and>
   parseCSV quotedExample = [[quotedContent, js ''x'']]"
proof (intro conjI impI)
  assume "\<not> inQuotes st \<and> (rest = [] \<or> hd rest \<noteq> 34)"
  then show "parseLoop st ([34] @ doubleQuotes s @ [34] @ rest) = parseLoop (st\<lparr>cell := cell st @ s\<rparr>) rest"
    by (intro quoted_segment) blast+
next
  assume "trim s \<noteq> []"
  then show "parseCSV ([34] @ doubleQuotes s @ [34]) = [[s]]" by (rule single_quoted_field)
next
  assume "\<forall>r \<in> set t. list_all wellFormedField r"
  then show "parseCSV (writeTable t) = filter nonBlankRow (map (map content) t)"
    by (rule parseCSV_writeTable)
next
  show "parseCSV quotedExample = [[quotedContent, js ''x'']]"
    by (simp add: csv_defs quotedExample_def quotedContent_def js_def trim_def isSpace_def Let_def)
qed

theorem quoted_fields_literal_witness:
  "\<not> inQuotes (idle []) \<and> hd (js '',x'') \<noteq> 34 \<and>
   parseLoop (idle []) ([34] @ doubleQuotes quotedContent @ [34] @ js '',x'') =
     parseLoop ((idle [])\<lparr>cell := quotedContent\<rparr>) (js '',x'') \<and>
   trim quotedContent \<noteq> [] \<and>
   parseCSV ([34] @ doubleQuotes quotedContent @ [34]) = [[quotedContent]] \<and>
   list_all wellFormedField [Quoted quotedContent, Bare (js ''x'')] \<and>
   writeTable [[Quoted quotedContent, Bare (js ''x'')]] = quotedExample \<and>
   parseCSV (writeTable [[Quoted quotedContent, Bare (js ''x'')]]) = [[quotedContent, js ''x'']]"
proof -
  note t = quoted_fields_literal[of "idle []" "js '',x''" quotedContent "[[Quoted quotedContent, Bare (js ''x'')]]"]
  have a: "\<not> inQuotes (idle [])" by (simp add: idle_def)
  have b: "hd (js '',x'') \<noteq> 34" by (simp add: js_def)
  have c: "trim quotedContent \<noteq> []" by (simp add: quotedContent_def text_defs)
  have d: "list_all wellFormedField [Quoted quotedContent, Bare (js ''x'')]"
    by (simp add: bareChar_def js_def)
  have e: "writeTable [[Quoted quotedContent, Bare (js ''x'')]] = quotedExample"
    by (simp add: writeTable_def doubleQuotes_def quotedContent_def quotedExample_def js_def)
  have f: "nonBlankRow [quotedContent, js ''x'']"
    by (simp add: nonBlankRow_def quotedContent_def text_defs)
  from t a b have 1: "parseLoop (idle []) ([34] @ doubleQuotes quotedContent @ [34] @ js '',x'') =
     parseLoop ((idle [])\<lparr>cell := quotedContent\<rparr>) (js '',x'')"
    by (simp add: idle_def)
  from t c have 2: "parseCSV ([34] @ doubleQuotes quotedContent @ [34]) = [[quotedContent]]" by blast
  from t d have "parseCSV (writeTable [[Quoted quotedContent, Bare (js ''x'')]]) =
      filter nonBlankRow (map (map content) [[Quoted quotedContent, Bare (js ''x'')]])" by simp
  with f have 3: "parseCSV (writeTable [[Quoted quotedContent, Bare (js ''x'')]]) = [[quotedContent, js ''x'']]"
    by simp
  from a b 1 c 2 d e 3 show ?thesis by blast
qed

text \<open>
  C8, as stated, at the text \<^verbatim>\<open>1-2\<close>: the source keeps the minus sign between the digits,
  the text does not parse and the result is 0; stripping every minus sign that is not
  leading would give 12.
\<close>

theorem inner_minus_kept_counterexample:
  "safeNum (js ''1-2'') = Fin 0 \<and> safeNum_spec (js ''1-2'') = Fin 12"
  by (simp add: num_defs text_defs)

text \<open>
  C8, amended. For every text the result is a finite number. Only the digits, commas,
  periods and minus signs of the trimmed text count, a minus sign wherever it stands:
  digits followed by a minus sign give zero whatever comes after. A comma between digits
  reads as the decimal point. A text that does not parse to a finite number gives zero. \<^verbatim>\<open>120 km\<close> gives 120, \<^verbatim>\<open>abc\<close> gives 0, \<^verbatim>\<open>1,5\<close>
  gives 1.5 and \<^verbatim>\<open>-5\<close> gives -5.
\<close>

theorem numeric_parsing:
  "(\<exists>r. safeNum v = Fin r) \<and>
   safeNum v = safeNum (filter numericChar (norm_text v)) \<and>
   (list_all isDigit a \<and> a \<noteq> [] \<and> list_all numericChar b \<longrightarrow> safeNum (a @ js ''-'' @ b) = Fin 0) \<and>
   (list_all isDigit a \<and> list_all isDigit c \<longrightarrow> safeNum (a @ js '','' @ c) = safeNum (a @ js ''.'' @ c)) \<and>
   (\<not> isFinite (Number (replaceFirstComma (filter numericChar (norm_text v)))) \<longrightarrow> safeNum v = Fin 0) \<and>
   safeNum (js ''120 km'') = Fin 120 \<and>
   safeNum (js ''abc'') = Fin 0 \<and>
   safeNum (js ''1,5'') = Fin (3 / 2) \<and>
   safeNum (js ''-5'') = Fin (- 5)"
proof (intro conjI impI)
  show "\<exists>r. safeNum v = Fin r" by (rule safeNum_finite)
  show "safeNum v = safeNum (filter numericChar (norm_text v))" by (rule safeNum_strip)
  show "safeNum (a @ js ''-'' @ b) = Fin 0"
    if "list_all isDigit a \<and> a \<noteq> [] \<and> list_all numericChar b"
    using that by (simp add: safeNum_inner_minus del: js_dash)
  show "safeNum (a @ js '','' @ c) = safeNum (a @ js ''.'' @ c)"
    if "list_all isDigit a \<and> list_all isDigit c"
    using that by (simp add: safeNum_comma)
  show "safeNum v = Fin 0"
    if "\<not> isFinite (Number (replaceFirstComma (filter numericChar (norm_text v))))"
    using that by (simp add: safeNum_def)
  show "safeNum (js ''120 km'') = Fin 120" by (rule safeNum_examples)
  show "safeNum (js ''abc'') = Fin 0" by (rule safeNum_examples)
  show "safeNum (js ''1,5'') = Fin (3 / 2)" by (rule safeNum_examples)
  show "safeNum (js ''-5'') = Fin (- 5)" by (rule safeNum_examples)
qed

theorem numeric_parsing_witness:
  "list_all isDigit (js ''10'') \<and> js ''10'' \<noteq> [] \<and> list_all numericChar (js ''20,5'') \<and>
   safeNum (js ''10'' @ js ''-'' @ js ''20,5'') = Fin 0 \<and>
   list_all isDigit (js ''25'') \<and>
   safeNum (js ''10'' @ js '','' @ js ''25'') = Fin (41 / 4) \<and>
   \<not> isFinite (Number (replaceFirstComma (filter numericChar (norm_text (js ''1.2.3''))))) \<and>
   safeNum (js ''1.2.3'') = Fin 0"
proof -
  have a: "list_all isDigit (js ''10'') \<and> js ''10'' \<noteq> [] \<and> list_all numericChar (js ''20,5'')"
    by (simp add: numericChar_def text_defs)
  have c: "list_all isDigit (js ''25'')" by (simp add: text_defs)
  have b: "\<not> isFinite (Number (replaceFirstComma (filter numericChar (norm_text (js ''1.2.3'')))))"
    by (simp add: num_defs text_defs)
  have d: "safeNum (js ''10'' @ js ''.'' @ js ''25'') = Fin (41 / 4)"
    by (simp add: num_defs text_defs)
  note t = numeric_parsing[of "js ''1.2.3''" "js ''10''" "js ''20,5''" "js ''25''"]
  from t a have 1: "safeNum (js ''10'' @ js ''-'' @ js ''20,5'') = Fin 0" by blast
  from t a c have "safeNum (js ''10'' @ js '','' @ js ''25'') = safeNum (js ''10'' @ js ''.'' @ js ''25'')"
    by blast
  then have 2: "safeNum (js ''10'' @ js '','' @ js ''25'') = Fin (41 / 4)" unfolding d .
  from t b have 3: "safeNum (js ''1.2.3'') = Fin 0" by blast
  from a c b 1 2 3 show ?thesis by blast
qed

text \<open>
  C1, as stated, on a page just loaded: the request for \<^verbatim>\<open>Roma\<close> is issued at
  1700000000000, the response arrives 250 ms later, and only then the timestamp is set,
  to the time of arrival.
\<close>

theorem timestamp_after_response_counterexample:
  "events (snd (geocodeNominatim envFound (js ''Roma'') world0)) =
     [RequestIssued 1700000000000 (js ''Roma''), ResponseArrived 1700000000250,
      TimestampSet 1700000000250] \<and>
   lastGeocodeAt (snd (geocodeNominatim envFound (js ''Roma'') world0)) = 1700000000250"
  by (simp add: geocodeNominatim_def Let_def world0_def envFound_def romaCandidate_def
      loadGeocodeCache_def cacheGet_def inheritedKeys_def saveGeocodeCache_def isFinite_def
      text_defs)

text \<open>
  C1, amended. Whenever the resolver misses the cache and the request it issues gets a
  response, the shared timestamp is set after the response has arrived, to the time of its
  arrival (the time the request was issued at plus the time it took).
\<close>

theorem timestamp_set_on_response:
  "misses (norm_text query) w \<and> fetched env = GeoResponse ok body \<longrightarrow>
     events (snd (geocodeNominatim env query w)) =
       events w @ [RequestIssued (startTime env w) (norm_text query),
                   ResponseArrived (startTime env w + int (fetchTime env)),
                   TimestampSet (startTime env w + int (fetchTime env))] \<and>
     lastGeocodeAt (snd (geocodeNominatim env query w)) = startTime env w + int (fetchTime env)"
  using geocode_response(1,2) by blast

theorem timestamp_set_on_response_witness:
  "misses (norm_text (js ''Roma'')) world0 \<and>
   fetched envFound = GeoResponse True (Json [romaCandidate]) \<and>
   events (snd (geocodeNominatim envFound (js ''Roma'') world0)) =
     [RequestIssued 1700000000000 (js ''Roma''), ResponseArrived 1700000000250,
      TimestampSet 1700000000250] \<and>
   lastGeocodeAt (snd (geocodeNominatim envFound (js ''Roma'') world0)) = 1700000000250"
proof -
  have f: "fetched envFound = GeoResponse True (Json [romaCandidate])" by (simp add: envFound_def)
  have n: "norm_text (js ''Roma'') = js ''Roma''" by (simp add: text_defs)
  have e: "events world0 = []" "int (fetchTime envFound) = 250" by (simp_all add: world0_def envFound_def)
  from timestamp_set_on_response[of "js ''Roma''" world0 envFound True "Json [romaCandidate]"]
    roma_misses f
  show ?thesis by (simp add: start_world0 n e)
qed

text \<open>
  C4, as stated, on a page just loaded: the request for \<^verbatim>\<open>Roma\<close> is rejected after 5 ms,
  the timestamp is not set, and the request for \<^verbatim>\<open>Milano\<close> starts 5 ms after the first.
\<close>

theorem rejected_request_spacing_counterexample:
  "outbound (events (snd (geocodeNominatim envFound (js ''Milano'')
      (later 0 (snd (geocodeNominatim envRejected (js ''Roma'') world0)))))) =
     [(1700000000000, js ''Roma''), (1700000000005, js ''Milano'')]"
  by (simp add: geocodeNominatim_def Let_def world0_def envFound_def envRejected_def
      romaCandidate_def later_def loadGeocodeCache_def cacheGet_def inheritedKeys_def
      saveGeocodeCache_def isFinite_def text_defs)

text \<open>
  C4, amended. Of two calls made one after the other, for two queries that differ and
  both miss the cache, where the request of the first gets a response: both issue a
  request, and the second request starts no sooner than 1100 ms after the first started.
\<close>

theorem sequential_requests_spaced:
  "misses (norm_text query1) w \<and> misses (norm_text query2) w \<and>
   norm_text query1 \<noteq> norm_text query2 \<and> fetched env1 = GeoResponse ok body \<longrightarrow>
     (\<exists>t1 t2.
        outbound (events (snd (geocodeNominatim env2 query2
            (later gap (snd (geocodeNominatim env1 query1 w)))))) =
          outbound (events w) @ [(t1, norm_text query1), (t2, norm_text query2)] \<and>
        t1 + 1100 \<le> t2)"
proof
  assume a: "misses (norm_text query1) w \<and> misses (norm_text query2) w \<and>
   norm_text query1 \<noteq> norm_text query2 \<and> fetched env1 = GeoResponse ok body"
  let ?w1 = "later gap (snd (geocodeNominatim env1 query1 w))"
  from a have m1: "misses (norm_text query1) w" and f1: "fetched env1 = GeoResponse ok body"
    and m2: "misses (norm_text query2) w" and ne: "norm_text query2 \<noteq> norm_text query1"
    by auto
  have m2': "misses (norm_text query2) ?w1"
    by (rule misses_after_response[OF m1 f1 m2 ne])
  have "outbound (events (snd (geocodeNominatim env2 query2 ?w1))) =
      outbound (events ?w1) @ [(startTime env2 ?w1, norm_text query2)]"
    by (rule geocode_outbound[OF m2'])
  also have "outbound (events ?w1) = outbound (events w) @ [(startTime env1 w, norm_text query1)]"
    using geocode_outbound[OF m1, of env1] by simp
  finally have o: "outbound (events (snd (geocodeNominatim env2 query2 ?w1))) =
      outbound (events w) @ [(startTime env1 w, norm_text query1), (startTime env2 ?w1, norm_text query2)]"
    by simp
  have "startTime env1 w + 1100 \<le> startTime env2 ?w1"
    by (rule spacing_after_response[OF m1 f1])
  with o show "\<exists>t1 t2.
        outbound (events (snd (geocodeNominatim env2 query2 ?w1))) =
          outbound (events w) @ [(t1, norm_text query1), (t2, norm_text query2)] \<and>
        t1 + 1100 \<le> t2"
    by blast
qed

theorem sequential_requests_spaced_witness:
  "misses (norm_text (js ''Roma'')) world0 \<and> misses (norm_text (js ''Milano'')) world0 \<and>
   norm_text (js ''Roma'') \<noteq> norm_text (js ''Milano'') \<and>
   fetched envFound = GeoResponse True (Json [romaCandidate]) \<and>
   outbound (events (snd (geocodeNominatim envNoMatch (js ''Milano'')
      (later 40 (snd (geocodeNominatim envFound (js ''Roma'') world0)))))) =
     [(1700000000000, js ''Roma''), (1700000001353, js ''Milano'')]"
proof -
  have f: "fetched envFound = GeoResponse True (Json [romaCandidate])" by (simp add: envFound_def)
  have ne: "norm_text (js ''Roma'') \<noteq> norm_text (js ''Milano'')" by (simp add: text_defs)
  have v: "outbound (events (snd (geocodeNominatim envNoMatch (js ''Milano'')
      (later 40 (snd (geocodeNominatim envFound (js ''Roma'') world0)))))) =
     [(1700000000000, js ''Roma''), (1700000001353, js ''Milano'')]"
    by (simp add: geocodeNominatim_def Let_def world0_def envFound_def envNoMatch_def
      romaCandidate_def later_def loadGeocodeCache_def cacheGet_def inheritedKeys_def
      saveGeocodeCache_def isFinite_def text_defs)
  from sequential_requests_spaced[of "js ''Roma''" world0 "js ''Milano''" envFound True
      "Json [romaCandidate]" envNoMatch 40] roma_misses milano_misses ne f
  have "\<exists>t1 t2.
        outbound (events (snd (geocodeNominatim envNoMatch (js ''Milano'')
            (later 40 (snd (geocodeNominatim envFound (js ''Roma'') world0)))))) =
          outbound (events world0) @ [(t1, norm_text (js ''Roma'')), (t2, norm_text (js ''Milano''))] \<and>
        t1 + 1100 \<le> t2"
    by blast
  with roma_misses milano_misses ne f v show ?thesis by blast
qed

text \<open>
  C5, as stated, with a storage that cannot be written: the first call for \<^verbatim>\<open>Roma\<close>
  returns the coordinates, and the second call for \<^verbatim>\<open>Roma\<close> issues a request again.
\<close>

theorem unwritable_cache_counterexample:
  "fst (geocodeNominatim envUnwritable (js ''Roma'') world0) = Returned (Coordinates (hitOf romaCandidate)) \<and>
   outbound (events (snd (geocodeNominatim envFound (js ''Roma'')
      (later 0 (snd (geocodeNominatim envUnwritable (js ''Roma'') world0)))))) =
     [(1700000000000, js ''Roma''), (1700000001353, js ''Roma'')]"
  by (simp add: geocodeNominatim_def Let_def world0_def envFound_def envUnwritable_def
      romaCandidate_def later_def loadGeocodeCache_def cacheGet_def inheritedKeys_def
      saveGeocodeCache_def isFinite_def hitOf_def text_defs)

text \<open>
  C5, amended. After a call for a query has returned coordinates and the cache was
  written, a second call with the same normalised query returns the stored coordinates
  and changes nothing: no request, no wait (one request across the two). After a call
  that got a response which is no success or has no candidate, nothing is stored, and the
  next call for the query issues a request of its own.
\<close>

theorem cache_holds_successes:
  "(misses (norm_text query) w \<and> norm_text query' = norm_text query \<and>
    fetched env1 = GeoResponse True (Json (c # cs)) \<and> isFinite (c_lat c) \<and> isFinite (c_lon c) \<and>
    storageWritable env1 \<longrightarrow>
      fst (geocodeNominatim env1 query w) = Returned (Coordinates (hitOf c)) \<and>
      geocodeNominatim env2 query' (later gap (snd (geocodeNominatim env1 query w))) =
        (Returned (Coordinates (hitOf c)), later gap (snd (geocodeNominatim env1 query w))) \<and>
      outbound (events (later gap (snd (geocodeNominatim env1 query w)))) =
        outbound (events w) @ [(startTime env1 w, norm_text query)]) \<and>
   (misses (norm_text query) w \<and> norm_text query' = norm_text query \<and>
    (fetched env1 = GeoResponse False body \<or> fetched env1 = GeoResponse True (Json [])) \<longrightarrow>
      fst (geocodeNominatim env1 query w) = Returned Null \<and>
      storage (snd (geocodeNominatim env1 query w)) = storage w \<and>
      (\<exists>t1 t2.
        outbound (events (snd (geocodeNominatim env2 query'
            (later gap (snd (geocodeNominatim env1 query w)))))) =
          outbound (events w) @ [(t1, norm_text query), (t2, norm_text query)] \<and>
        t1 + 1100 \<le> t2))"
proof (intro conjI impI)
  assume a: "misses (norm_text query) w \<and> norm_text query' = norm_text query \<and>
    fetched env1 = GeoResponse True (Json (c # cs)) \<and> isFinite (c_lat c) \<and> isFinite (c_lon c) \<and>
    storageWritable env1"
  let ?w1 = "snd (geocodeNominatim env1 query w)"
  from a have m: "misses (norm_text query) w"
    and f: "fetched env1 = GeoResponse True (Json (c # cs))" by auto
  from a have st: "stored env1" by (simp add: stored_def)
  from geocode_response_result[OF m f] a
  show "fst (geocodeNominatim env1 query w) = Returned (Coordinates (hitOf c))" by simp
  from geocode_response_storage[OF m f] st
  have "storage ?w1 = Cache ((loadGeocodeCache w)(norm_text query \<mapsto> hitOf c))" by simp
  then have "cacheGet (loadGeocodeCache (later gap ?w1)) (norm_text query') = Own (hitOf c)"
    using a by (simp add: loadGeocodeCache_def cacheGet_same)
  moreover from a have "norm_text query' \<noteq> []" by (simp add: misses_def)
  ultimately show "geocodeNominatim env2 query' (later gap ?w1) =
      (Returned (Coordinates (hitOf c)), later gap ?w1)"
    by (intro geocode_hit)
  show "outbound (events (later gap ?w1)) = outbound (events w) @ [(startTime env1 w, norm_text query)]"
    using geocode_outbound[OF m, of env1] by simp
next
  assume a: "misses (norm_text query) w \<and> norm_text query' = norm_text query \<and>
    (fetched env1 = GeoResponse False body \<or> fetched env1 = GeoResponse True (Json []))"
  let ?w1 = "snd (geocodeNominatim env1 query w)"
  let ?w1' = "later gap ?w1"
  from a have m: "misses (norm_text query) w" and q: "norm_text query' = norm_text query" by auto
  from a obtain ok b where f: "fetched env1 = GeoResponse ok b"
    and nb: "\<not> ok \<or> b = Json []" by auto
  then have ns: "\<not> stored env1" by (auto simp: stored_def split: geoBody.splits)
  from geocode_response_result[OF m f] nb
  show "fst (geocodeNominatim env1 query w) = Returned Null"
    by (auto split: geoBody.splits)
  from geocode_response_storage[OF m f] ns
  show "storage ?w1 = storage w" by simp
  have m': "misses (norm_text query') ?w1'"
    unfolding q by (rule misses_after_failure[OF m f ns])
  have "outbound (events (snd (geocodeNominatim env2 query' ?w1'))) =
      outbound (events ?w1') @ [(startTime env2 ?w1', norm_text query')]"
    by (rule geocode_outbound[OF m'])
  also have "outbound (events ?w1') = outbound (events w) @ [(startTime env1 w, norm_text query)]"
    using geocode_outbound[OF m, of env1] by simp
  finally have o: "outbound (events (snd (geocodeNominatim env2 query' ?w1'))) =
      outbound (events w) @ [(startTime env1 w, norm_text query), (startTime env2 ?w1', norm_text query)]"
    by (simp add: q)
  have "startTime env1 w + 1100 \<le> startTime env2 ?w1'"
    by (rule spacing_after_response[OF m f])
  with o show "\<exists>t1 t2.
        outbound (events (snd (geocodeNominatim env2 query' ?w1'))) =
          outbound (events w) @ [(t1, norm_text query), (t2, norm_text query)] \<and>
        t1 + 1100 \<le> t2"
    by blast
qed

theorem cache_holds_successes_witness:
  "misses (norm_text (js ''Roma'')) world0 \<and>
   norm_text (js '' Roma '') = norm_text (js ''Roma'') \<and>
   fetched envFound = GeoResponse True (Json [romaCandidate]) \<and>
   isFinite (c_lat romaCandidate) \<and> isFinite (c_lon romaCandidate) \<and> storageWritable envFound \<and>
   fst (geocodeNominatim envRejected (js '' Roma '')
         (later 0 (snd (geocodeNominatim envFound (js ''Roma'') world0)))) =
     Returned (Coordinates (hitOf romaCandidate)) \<and>
   outbound (events (snd (geocodeNominatim envRejected (js '' Roma '')
         (later 0 (snd (geocodeNominatim envFound (js ''Roma'') world0)))))) =
     [(1700000000000, js ''Roma'')] \<and>
   fetched envNoMatch = GeoResponse True (Json []) \<and>
   fst (geocodeNominatim envNoMatch (js ''Roma'') world0) = Returned Null \<and>
   outbound (events (snd (geocodeNominatim envFound (js ''Roma'')
         (later 0 (snd (geocodeNominatim envNoMatch (js ''Roma'') world0)))))) =
     [(1700000000000, js ''Roma''), (1700000001353, js ''Roma'')]"
proof -
  let ?w1 = "later 0 (snd (geocodeNominatim envFound (js ''Roma'') world0))"
  have n: "norm_text (js '' Roma '') = norm_text (js ''Roma'')" by (simp add: text_defs)
  have n': "norm_text (js ''Roma'') = js ''Roma''" by (simp add: text_defs)
  have f: "fetched envFound = GeoResponse True (Json [romaCandidate])" by (simp add: envFound_def)
  have fin: "isFinite (c_lat romaCandidate) \<and> isFinite (c_lon romaCandidate)"
    by (simp add: romaCandidate_def isFinite_def)
  have sw: "storageWritable envFound" by (simp add: envFound_def)
  have fn: "fetched envNoMatch = GeoResponse True (Json [])" by (simp add: envNoMatch_def)
  note t1 = cache_holds_successes[of "js ''Roma''" world0 "js '' Roma ''" envFound romaCandidate "[]"
      envRejected 0 BadJson]
  note t2 = cache_holds_successes[of "js ''Roma''" world0 "js ''Roma''" envNoMatch romaCandidate "[]"
      envFound 0 BadJson]
  from t1 roma_misses n f fin sw
  have s: "geocodeNominatim envRejected (js '' Roma '') ?w1 = (Returned (Coordinates (hitOf romaCandidate)), ?w1)"
    and o: "outbound (events ?w1) = outbound (events world0) @ [(startTime envFound world0, norm_text (js ''Roma''))]"
    by blast+
  from s have 1: "fst (geocodeNominatim envRejected (js '' Roma '') ?w1) = Returned (Coordinates (hitOf romaCandidate))"
    by simp
  from s o have 2: "outbound (events (snd (geocodeNominatim envRejected (js '' Roma '') ?w1))) =
      [(1700000000000, js ''Roma'')]"
    unfolding start_world0 n' by (simp add: world0_def)
  from t2 roma_misses fn have 3: "fst (geocodeNominatim envNoMatch (js ''Roma'') world0) = Returned Null"
    by blast
  have 4: "outbound (events (snd (geocodeNominatim envFound (js ''Roma'')
         (later 0 (snd (geocodeNominatim envNoMatch (js ''Roma'') world0)))))) =
     [(1700000000000, js ''Roma''), (1700000001353, js ''Roma'')]"
    by (simp add: geo_eval text_defs)
  from roma_misses n f fin sw 1 2 fn 3 4 show ?thesis by blast
qed

end
